theory Spec2Isabelle
  imports Main
begin

section \<open>JavaScript values and string primitives\<close>

text \<open>
  The program under study is \<^verbatim>\<open>log-context-search/index.js\<close>, the context-aware log
  search. Its records are plain JavaScript objects, and on the index path their fields
  hold whatever \<^verbatim>\<open>JSON.parse\<close> returned. A field is therefore modelled by a JSON value;
  a property that is absent (\<^verbatim>\<open>undefined\<close>) is \<open>None\<close> of an option.

  Conventions of the model:
  \<^item> strings are \<open>string\<close> (character lists); case mapping and white space are the ASCII
    ones, other characters are left alone;
  \<^item> numbers are integers (line numbers, sequence numbers, epoch milliseconds);
  \<^item> an exception is \<open>Inl\<close> of a sum.
\<close>

datatype json =
    JNull
  | JBool bool
  | JNum int
  | JStr string
  | JArr "json list"
  | JObj "(string \<times> json) list"

datatype error =
    TypeError
  | MalformedIndexEntry string nat

text \<open>Truthiness, as \<^verbatim>\<open>if (x)\<close>, \<^verbatim>\<open>x ? a : b\<close>, \<^verbatim>\<open>!x\<close> and \<^verbatim>\<open>x || y\<close> test it.\<close>

fun truthy :: "json \<Rightarrow> bool" where
  "truthy JNull = False"
| "truthy (JBool b) = b"
| "truthy (JNum n) = (n \<noteq> 0)"
| "truthy (JStr s) = (s \<noteq> [])"
| "truthy (JArr xs) = True"
| "truthy (JObj kvs) = True"

text \<open>\<^verbatim>\<open>s.startsWith(p)\<close>, \<^verbatim>\<open>s.indexOf(p)\<close> (\<open>None\<close> for -1) and \<^verbatim>\<open>s.includes(p)\<close>.\<close>

fun startsWith :: "string \<Rightarrow> string \<Rightarrow> bool" where
  "startsWith s [] = True"
| "startsWith [] (c # cs) = False"
| "startsWith (x # xs) (c # cs) = (x = c \<and> startsWith xs cs)"

fun indexOf :: "string \<Rightarrow> string \<Rightarrow> nat option" where
  "indexOf [] p = (if p = [] then Some 0 else None)"
| "indexOf (x # xs) p =
     (if startsWith (x # xs) p then Some 0 else map_option Suc (indexOf xs p))"

definition strIncludes :: "string \<Rightarrow> string \<Rightarrow> bool" where
  "strIncludes s p = (indexOf s p \<noteq> None)"

text \<open>\<^verbatim>\<open>s.trim()\<close>, \<^verbatim>\<open>s.toUpperCase()\<close>, \<^verbatim>\<open>s.toLowerCase()\<close>.\<close>

definition isWhiteSpace :: "char \<Rightarrow> bool" where
  "isWhiteSpace c = (of_char c \<in> {9, 10, 11, 12, 13, 32 :: nat})"

definition trim :: "string \<Rightarrow> string" where
  "trim s = rev (dropWhile isWhiteSpace (rev (dropWhile isWhiteSpace s)))"

definition upperChar :: "char \<Rightarrow> char" where
  "upperChar c =
     (let n = (of_char c :: nat) in if 97 \<le> n \<and> n \<le> 122 then char_of (n - 32) else c)"

definition lowerChar :: "char \<Rightarrow> char" where
  "lowerChar c =
     (let n = (of_char c :: nat) in if 65 \<le> n \<and> n \<le> 90 then char_of (n + 32) else c)"

definition toUpperCase :: "string \<Rightarrow> string" where
  "toUpperCase s = map upperChar s"

definition toLowerCase :: "string \<Rightarrow> string" where
  "toLowerCase s = map lowerChar s"

text \<open>\<^verbatim>\<open>s.replace(a, b)\<close> with one-character strings: the first occurrence only.\<close>

fun replaceFirst :: "char \<Rightarrow> char \<Rightarrow> string \<Rightarrow> string" where
  "replaceFirst a b [] = []"
| "replaceFirst a b (x # xs) = (if x = a then b # xs else x # replaceFirst a b xs)"

text \<open>\<^verbatim>\<open>s.split('\n')\<close>: always at least one piece.\<close>

fun splitOn :: "char \<Rightarrow> string \<Rightarrow> string list" where
  "splitOn d [] = [[]]"
| "splitOn d (x # xs) =
     (if x = d then [] # splitOn d xs
      else (case splitOn d xs of [] \<Rightarrow> [[x]] | p # ps \<Rightarrow> (x # p) # ps))"

text \<open>\<^verbatim>\<open>String(n)\<close> for an integer.\<close>

definition digitChar :: "nat \<Rightarrow> char" where
  "digitChar d = char_of (48 + d)"

function digitsOf :: "int \<Rightarrow> string" where
  "digitsOf n =
     (if n < 10 then [digitChar (nat n)] else digitsOf (n div 10) @ [digitChar (nat (n mod 10))])"
  by pat_completeness auto
termination
  by (relation "measure nat") auto

declare digitsOf.simps [simp del]

definition intToString :: "int \<Rightarrow> string" where
  "intToString i = (if i < 0 then CHR ''-'' # digitsOf (- i) else digitsOf i)"

text \<open>
  \<^verbatim>\<open>pieces.join(sep)\<close> on strings, then \<^verbatim>\<open>String(v)\<close> and \<^verbatim>\<open>array.join(sep)\<close> on values:
  \<^verbatim>\<open>join\<close> renders \<^verbatim>\<open>null\<close> as the empty string, and an array inside as its own
  comma-joined elements.
\<close>

fun joinStrings :: "string \<Rightarrow> string list \<Rightarrow> string" where
  "joinStrings sep [] = []"
| "joinStrings sep [s] = s"
| "joinStrings sep (s # t # ts) = s @ sep @ joinStrings sep (t # ts)"

fun toStr :: "json \<Rightarrow> string"
  and elemStr :: "json \<Rightarrow> string"
  and elemStrs :: "json list \<Rightarrow> string list" where
  "toStr JNull = ''null''"
| "toStr (JBool b) = (if b then ''true'' else ''false'')"
| "toStr (JNum n) = intToString n"
| "toStr (JStr s) = s"
| "toStr (JArr xs) = joinStrings '','' (elemStrs xs)"
| "toStr (JObj kvs) = ''[object Object]''"
| "elemStr JNull = []"
| "elemStr (JBool b) = (if b then ''true'' else ''false'')"
| "elemStr (JNum n) = intToString n"
| "elemStr (JStr s) = s"
| "elemStr (JArr xs) = joinStrings '','' (elemStrs xs)"
| "elemStr (JObj kvs) = ''[object Object]''"
| "elemStrs [] = []"
| "elemStrs (x # xs) = elemStr x # elemStrs xs"

definition joinArr :: "string \<Rightarrow> json list \<Rightarrow> string" where
  "joinArr sep xs = joinStrings sep (elemStrs xs)"

text \<open>
  Property access \<^verbatim>\<open>v.k\<close> on a parsed value that is not \<^verbatim>\<open>null\<close>: an object yields its
  entry (the last one, should a key repeat), every other value has none of the
  properties the program asks for. \<^verbatim>\<open>a ?? d\<close> falls back on a missing or \<^verbatim>\<open>null\<close> left side.
\<close>

fun getProp :: "json \<Rightarrow> string \<Rightarrow> json option" where
  "getProp (JObj kvs) k = map_of (rev kvs) k"
| "getProp v k = None"

fun nullish :: "json option \<Rightarrow> json \<Rightarrow> json" where
  "nullish None d = d"
| "nullish (Some JNull) d = d"
| "nullish (Some v) d = v"

section \<open>Records and the filter predicate\<close>

text \<open>
  The record object of \<^verbatim>\<open>createRecord\<close> (lines 166--183) and of the index reader
  (lines 499--517). \<open>timestamp\<close> stands for the \<^verbatim>\<open>Date\<close> object by its epoch time and is
  absent on the index path; \<open>printed\<close> is the \<^verbatim>\<open>_printed\<close> flag. The two text caches
  \<^verbatim>\<open>_textCache\<close> and \<^verbatim>\<open>_lowerCache\<close> only memoise the joined \<open>lines\<close>, are reset by
  \<^verbatim>\<open>appendLine\<close> and are read after the last append only, so \<open>getText\<close> below recomputes
  the text and the caches are left out.
\<close>

record logrec =
  index :: json
  startLine :: json
  endLine :: json
  timestamp :: "int option"
  timestampRaw :: json
  timestampMs :: "int option"
  level :: json
  pid :: json
  thread :: json
  location :: json
  message :: json
  messageLines :: "json list"
  lines :: "json list"
  printed :: bool

text \<open>The options handed to \<^verbatim>\<open>createFilter\<close> by \<^verbatim>\<open>main\<close> (lines 616--623).\<close>

record filter_args =
  levels :: "string list"
  keywordsArg :: "string list"
  threadArg :: "string option"
  fromMs :: "int option"
  toMs :: "int option"
  ignoreCase :: bool

text \<open>\<^verbatim>\<open>getText\<close> of \<^verbatim>\<open>processFile\<close> (lines 322--333) and of \<^verbatim>\<open>processIndex\<close> (429--440).\<close>

definition getText :: "logrec \<Rightarrow> bool \<Rightarrow> string" where
  "getText record lowercase =
     (if lowercase then toLowerCase (joinArr [CHR 0x0A] (lines record))
      else joinArr [CHR 0x0A] (lines record))"

definition getTextIdx :: "logrec \<Rightarrow> bool \<Rightarrow> string" where
  "getTextIdx record lowercase =
     (if lowercase then toLowerCase (joinArr [CHR 0x0A] (lines record))
      else joinArr [CHR 0x0A] (lines record))"

text \<open>The three values \<^verbatim>\<open>createFilter\<close> computes once (lines 202--208).\<close>

definition levelSet :: "filter_args \<Rightarrow> string list option" where
  "levelSet A = (if levels A \<noteq> [] then Some (map toUpperCase (levels A)) else None)"

definition keywordNeedles :: "filter_args \<Rightarrow> string list" where
  "keywordNeedles A =
     (if keywordsArg A \<noteq> []
      then map (\<lambda>kw. if ignoreCase A then toLowerCase kw else kw) (keywordsArg A)
      else [])"

definition threadNeedle :: "filter_args \<Rightarrow> string option" where
  "threadNeedle A =
     (case threadArg A of
        None \<Rightarrow> None
      | Some t \<Rightarrow> if t \<noteq> [] then Some (if ignoreCase A then toLowerCase t else t) else None)"

text \<open>
  The checks of the returned predicate, in the order of lines 211--239. Each check
  answers \<open>Inr True\<close> to go on, \<open>Inr False\<close> for \<^verbatim>\<open>return false\<close>, and \<open>Inl TypeError\<close>
  where the call of a string method on a value that has none throws.
\<close>

definition fromCheck :: "filter_args \<Rightarrow> logrec \<Rightarrow> bool" where
  "fromCheck A record =
     (case fromMs A of
        None \<Rightarrow> True
      | Some f \<Rightarrow> (case timestampMs record of None \<Rightarrow> False | Some t \<Rightarrow> \<not> t < f))"

definition toCheck :: "filter_args \<Rightarrow> logrec \<Rightarrow> bool" where
  "toCheck A record =
     (case toMs A of
        None \<Rightarrow> True
      | Some u \<Rightarrow> (case timestampMs record of None \<Rightarrow> False | Some t \<Rightarrow> \<not> t > u))"

definition levelCheck :: "filter_args \<Rightarrow> logrec \<Rightarrow> error + bool" where
  "levelCheck A record =
     (case levelSet A of
        None \<Rightarrow> Inr True
      | Some ls \<Rightarrow>
          if truthy (level record)
          then (case level record of
                  JStr s \<Rightarrow> Inr (toUpperCase s \<noteq> [] \<and> toUpperCase s \<in> set ls)
                | _ \<Rightarrow> Inl TypeError)
          else Inr False)"

definition threadCheck :: "filter_args \<Rightarrow> logrec \<Rightarrow> error + bool" where
  "threadCheck A record =
     (case threadNeedle A of
        None \<Rightarrow> Inr True
      | Some needle \<Rightarrow>
          if truthy (thread record)
          then (if ignoreCase A
                then (case thread record of
                        JStr s \<Rightarrow> Inr (strIncludes (toLowerCase s) needle)
                      | _ \<Rightarrow> Inl TypeError)
                else (case thread record of
                        JStr s \<Rightarrow> Inr (strIncludes s needle)
                      | JArr xs \<Rightarrow> Inr (JStr needle \<in> set xs)
                      | _ \<Rightarrow> Inl TypeError))
          else Inr (strIncludes [] needle))"

definition keywordCheck :: "filter_args \<Rightarrow> (logrec \<Rightarrow> bool \<Rightarrow> string) \<Rightarrow> logrec \<Rightarrow> bool" where
  "keywordCheck A gt record =
     (if keywordNeedles A \<noteq> []
      then (let haystack = gt record (ignoreCase A)
            in list_ex (\<lambda>needle. strIncludes haystack needle) (keywordNeedles A))
      else True)"

definition createFilter ::
  "filter_args \<Rightarrow> logrec \<Rightarrow> (logrec \<Rightarrow> bool \<Rightarrow> string) \<Rightarrow> error + bool" where
  "createFilter A record gt =
     (if \<not> fromCheck A record then Inr False
      else if \<not> toCheck A record then Inr False
      else (case levelCheck A record of
              Inl e \<Rightarrow> Inl e
            | Inr False \<Rightarrow> Inr False
            | Inr True \<Rightarrow>
                (case threadCheck A record of
                   Inl e \<Rightarrow> Inl e
                 | Inr False \<Rightarrow> Inr False
                 | Inr True \<Rightarrow> Inr (keywordCheck A gt record))))"

section \<open>Line classifier and record assembler\<close>

text \<open>
  \<^verbatim>\<open>buildParser\<close> (lines 98--199). What the regular expressions and \<^verbatim>\<open>Date\<close> compute is
  taken as given: \<open>startMatch\<close> is \<^verbatim>\<open>line.match(startRegex)\<close> reduced to the matched text
  (the pattern comes from the configuration), \<open>headerMatch\<close> is \<^verbatim>\<open>line.match(headerRegex)\<close>
  reduced to its five groups (time stamp, level, process id, thread, trailing text), and
  \<open>dateParse\<close> is \<^verbatim>\<open>new Date(s).getTime()\<close> with \<open>None\<close> for \<^verbatim>\<open>NaN\<close>.
\<close>

record parser =
  startMatch :: "string \<Rightarrow> string option"
  headerMatch :: "string \<Rightarrow> (string \<times> string \<times> string \<times> string \<times> string) option"
  dateParse :: "string \<Rightarrow> int option"

definition isStart :: "parser \<Rightarrow> string \<Rightarrow> bool" where
  "isStart P line = (startMatch P line \<noteq> None)"

text \<open>\<^verbatim>\<open>parseTimestamp\<close> (lines 105--118): the pair \<^verbatim>\<open>{date, ms}\<close>.\<close>

definition parseTimestamp :: "parser \<Rightarrow> json \<Rightarrow> int option \<times> int option" where
  "parseTimestamp P raw =
     (case raw of
        JStr s \<Rightarrow>
          if s = [] then (None, None)
          else (case dateParse P s of
                  Some direct \<Rightarrow> (Some direct, Some direct)
                | None \<Rightarrow>
                    (case dateParse P (replaceFirst CHR '' '' CHR ''T'' s) of
                       Some isoGuess \<Rightarrow> (Some isoGuess, Some isoGuess)
                     | None \<Rightarrow> (None, None)))
      | _ \<Rightarrow> (None, None))"

text \<open>\<^verbatim>\<open>s || null\<close> on a string, and \<^verbatim>\<open>splitLocationMessage\<close> (lines 120--136).\<close>

definition orNull :: "string \<Rightarrow> json" where
  "orNull s = (if s = [] then JNull else JStr s)"

definition splitLocationMessage :: "string \<Rightarrow> json \<times> string" where
  "splitLocationMessage rest =
     (if rest = [] then (JNull, [])
      else
        (let (separatorIndex, separatorLength) =
               (case indexOf rest '' : '' of
                  Some i \<Rightarrow> (Some i, 3)
                | None \<Rightarrow>
                    (case indexOf rest '': '' of
                       Some i \<Rightarrow> (Some i, 2)
                     | None \<Rightarrow> (None, 0)))
         in case separatorIndex of
              None \<Rightarrow> (orNull (trim rest), [])
            | Some i \<Rightarrow>
                (orNull (trim (take i rest)), trim (drop (i + separatorLength) rest))))"

text \<open>\<^verbatim>\<open>createRecord\<close> (lines 138--184) and \<^verbatim>\<open>appendLine\<close> (lines 186--192).\<close>

definition createRecord :: "parser \<Rightarrow> string \<Rightarrow> nat \<Rightarrow> logrec" where
  "createRecord P line lineNumber =
     (let (tsRaw, lvl, pd, thr, loc, msg) =
            (case headerMatch P line of
               Some (g1, g2, g3, g4, rest) \<Rightarrow>
                 (let split = splitLocationMessage rest
                  in (JStr g1, JStr g2, JStr g3, JStr g4, fst split, snd split))
             | None \<Rightarrow>
                 (case startMatch P line of
                    Some m \<Rightarrow>
                      (JStr m, JNull, JNull, JNull, JNull,
                       if m \<noteq> [] then trim (drop (length m) line) else line)
                  | None \<Rightarrow> (JNull, JNull, JNull, JNull, JNull, line)));
          (date, ms) = parseTimestamp P tsRaw
      in \<lparr> index = JNum 0,
           startLine = JNum (int lineNumber),
           endLine = JNum (int lineNumber),
           timestamp = date,
           timestampRaw = tsRaw,
           timestampMs = ms,
           level = lvl,
           pid = pd,
           thread = thr,
           location = loc,
           message = JStr msg,
           messageLines = (if msg \<noteq> [] then [JStr msg] else []),
           lines = [JStr line],
           printed = False \<rparr>)"

definition appendLine :: "logrec \<Rightarrow> string \<Rightarrow> nat \<Rightarrow> logrec" where
  "appendLine record line lineNumber =
     record\<lparr> lines := lines record @ [JStr line],
             messageLines := messageLines record @ [JStr line],
             endLine := JNum (int lineNumber) \<rparr>"

section \<open>Printer and index serialisation\<close>

datatype role = Match | ContextBefore | ContextAfter

definition roleName :: "role \<Rightarrow> string" where
  "roleName r = (case r of Match \<Rightarrow> ''match'' | ContextBefore \<Rightarrow> ''context-before''
                 | ContextAfter \<Rightarrow> ''context-after'')"

definition labelForRole :: "role \<Rightarrow> string" where
  "labelForRole r = (case r of Match \<Rightarrow> [] | ContextBefore \<Rightarrow> ''[BEFORE]''
                     | ContextAfter \<Rightarrow> ''[AFTER]'')"

text \<open>
  \<^verbatim>\<open>createPrinter\<close> (lines 243--276): the lines one call writes to standard output, given
  the text \<^verbatim>\<open>JSON.stringify\<close> produces. In text mode an empty \<open>lines\<close> array leaves
  \<^verbatim>\<open>firstLine\<close> undefined.
\<close>

definition payload :: "logrec \<Rightarrow> role \<Rightarrow> json" where
  "payload record r =
     JObj [(''role'', JStr (roleName r)),
           (''index'', index record),
           (''startLine'', startLine record),
           (''endLine'', endLine record),
           (''time'', timestampRaw record),
           (''level'', level record),
           (''thread'', thread record),
           (''location'', location record),
           (''message'', message record),
           (''lines'', JArr (lines record))]"

definition createPrinter :: "(json \<Rightarrow> string) \<Rightarrow> bool \<Rightarrow> logrec \<Rightarrow> role \<Rightarrow> string list" where
  "createPrinter stringify jsonOutput record r =
     (if jsonOutput then [stringify (payload record r)]
      else (case lines record of
              [] \<Rightarrow> [labelForRole r @ ''undefined'']
            | firstLine # rest \<Rightarrow> (labelForRole r @ toStr firstLine) # map toStr rest))"

text \<open>\<^verbatim>\<open>serializeRecordForIndex\<close> (lines 278--292).\<close>

definition serializeRecordForIndex :: "logrec \<Rightarrow> json" where
  "serializeRecordForIndex record =
     JObj [(''index'', index record),
           (''startLine'', startLine record),
           (''endLine'', endLine record),
           (''timestampRaw'', nullish (Some (timestampRaw record)) JNull),
           (''timestampMs'', (case timestampMs record of Some ms \<Rightarrow> JNum ms | None \<Rightarrow> JNull)),
           (''level'', nullish (Some (level record)) JNull),
           (''pid'', nullish (Some (pid record)) JNull),
           (''thread'', nullish (Some (thread record)) JNull),
           (''location'', nullish (Some (location record)) JNull),
           (''message'', nullish (Some (message record)) (JStr [])),
           (''lines'', JArr (lines record))]"

text \<open>
  The metadata object of lines 312--318: the resolved source path, the size and
  modification time of \<^verbatim>\<open>fileStat\<close> when there is one, and the time of writing.
\<close>

record file_env =
  resolvedFile :: string
  fileStat :: "(int \<times> int) option"
  generatedAt :: string

definition metaObject :: "file_env \<Rightarrow> json" where
  "metaObject env =
     JObj [(''type'', JStr ''meta''),
           (''file'', JStr (resolvedFile env)),
           (''size'', (case fileStat env of Some (sz, mt) \<Rightarrow> JNum sz | None \<Rightarrow> JNull)),
           (''mtimeMs'', (case fileStat env of Some (sz, mt) \<Rightarrow> JNum mt | None \<Rightarrow> JNull)),
           (''generatedAt'', JStr (generatedAt env))]"

section \<open>Context window and the two record sources\<close>

text \<open>
  The variables both \<^verbatim>\<open>processFile\<close> and \<^verbatim>\<open>processIndex\<close> close over (lines 298--307 and
  418--427), with the calls made to the printer so far. The context counts are the
  non-negative integers the option parser admits (lines 48--56), so
  \<^verbatim>\<open>Number.isFinite\<close> accepts them as they are.
\<close>

record window =
  beforeBuffer :: "logrec list"
  afterCountdown :: nat
  recordIndex :: nat
  totalRecords :: nat
  matchCount :: nat
  printerCalls :: "(role \<times> logrec) list"

record file_state =
  fwin :: window
  current :: "logrec option"
  lineNumber :: nat
  indexStream :: "string list option"

record index_state =
  iwin :: window
  meta :: "json option"
  ilineNumber :: nat

text \<open>
  The loop over \<^verbatim>\<open>beforeBuffer\<close> (lines 346--351 and 452--457): the printer calls it
  makes, and the buffer with the flags it sets.
\<close>

fun printBefore :: "logrec list \<Rightarrow> (role \<times> logrec) list \<times> logrec list" where
  "printBefore [] = ([], [])"
| "printBefore (ctx # rest) =
     (let (calls, rest') = printBefore rest
      in if \<not> printed ctx then ((ContextBefore, ctx) # calls, ctx\<lparr>printed := True\<rparr> # rest')
         else (calls, ctx # rest'))"

text \<open>\<^verbatim>\<open>finalizeRecord\<close> of \<^verbatim>\<open>processFile\<close> (lines 335--380).\<close>

definition finalizeRecord ::
  "filter_args \<Rightarrow> nat \<Rightarrow> nat \<Rightarrow> (json \<Rightarrow> string) \<Rightarrow> file_state \<Rightarrow> logrec option
   \<Rightarrow> error + file_state" where
  "finalizeRecord F contextBeforeCount contextAfterCount stringify st rcd =
     (case rcd of
        None \<Rightarrow> Inr st
      | Some r \<Rightarrow>
          (let w1 = (fwin st)\<lparr> recordIndex := recordIndex (fwin st) + 1,
                               totalRecords := totalRecords (fwin st) + 1 \<rparr>;
               record = r\<lparr> index := JNum (int (recordIndex w1)),
                           message := (if messageLines r \<noteq> []
                                       then JStr (joinArr [CHR 0x0A] (messageLines r))
                                       else JStr []) \<rparr>
           in case createFilter F record getText of
                Inl e \<Rightarrow> Inl e
              | Inr isMatch \<Rightarrow>
                  (let w2 = (if isMatch \<and> contextBeforeCount > 0
                             then (let (calls, buf) = printBefore (beforeBuffer w1)
                                   in w1\<lparr> beforeBuffer := buf,
                                          printerCalls := printerCalls w1 @ calls \<rparr>)
                             else w1);
                       shouldPrintAsAfter = (\<not> isMatch \<and> afterCountdown w2 > 0);
                       (w3, record3) =
                         (if (isMatch \<or> shouldPrintAsAfter) \<and> \<not> printed record
                          then (w2\<lparr> printerCalls := printerCalls w2 @
                                       [(if isMatch then Match else ContextAfter, record)] \<rparr>,
                                record\<lparr>printed := True\<rparr>)
                          else (w2, record));
                       w4 = (if isMatch
                             then w3\<lparr> matchCount := matchCount w3 + 1,
                                      afterCountdown := contextAfterCount \<rparr>
                             else if afterCountdown w3 > 0
                             then w3\<lparr> afterCountdown := afterCountdown w3 - 1 \<rparr>
                             else w3);
                       w5 = (if contextBeforeCount > 0
                             then (let buf = beforeBuffer w4 @ [record3]
                                   in w4\<lparr> beforeBuffer :=
                                            (if length buf > contextBeforeCount then tl buf
                                             else buf) \<rparr>)
                             else w4)
                   in Inr (st\<lparr> fwin := w5,
                              indexStream :=
                                (case indexStream st of
                                   None \<Rightarrow> None
                                 | Some written \<Rightarrow>
                                     Some (written @
                                           [stringify (serializeRecordForIndex record3)])) \<rparr>))))"

text \<open>
  What a run leaves behind: the printer calls, the lines of the index file when one
  is written, and either the exception that ended the run or the returned
  \<^verbatim>\<open>{totalRecords, matchCount}\<close>. An exception leaves the earlier output in place.
\<close>

record run_result =
  emitted :: "(role \<times> logrec) list"
  indexFile :: "string list option"
  outcome :: "error + nat \<times> nat"

text \<open>
  The body of the loop of \<^verbatim>\<open>processFile\<close> (lines 383--393), the loop with the last
  \<^verbatim>\<open>finalizeRecord\<close> (line 394), and \<^verbatim>\<open>processFile\<close> itself (lines 294--412) on the lines
  \<^verbatim>\<open>readline\<close> delivers. \<open>writeIndexPath\<close> is tested for truthiness as line 310 does.
\<close>

definition fileLine ::
  "parser \<Rightarrow> filter_args \<Rightarrow> nat \<Rightarrow> nat \<Rightarrow> (json \<Rightarrow> string) \<Rightarrow> file_state \<Rightarrow> string
   \<Rightarrow> error + file_state" where
  "fileLine P F cb ca stringify st line =
     (let st1 = st\<lparr> lineNumber := lineNumber st + 1 \<rparr>
      in if isStart P line
         then (case finalizeRecord F cb ca stringify st1 (current st1) of
                 Inl e \<Rightarrow> Inl e
               | Inr st2 \<Rightarrow>
                   Inr (st2\<lparr> current := Some (createRecord P line (lineNumber st2)) \<rparr>))
         else (case current st1 of
                 Some cur \<Rightarrow>
                   Inr (st1\<lparr> current := Some (appendLine cur line (lineNumber st1)) \<rparr>)
               | None \<Rightarrow>
                   Inr (st1\<lparr> current := Some (createRecord P line (lineNumber st1)) \<rparr>)))"

definition fileFailed :: "file_state \<Rightarrow> error \<Rightarrow> run_result" where
  "fileFailed st e =
     \<lparr> emitted = printerCalls (fwin st), indexFile = indexStream st, outcome = Inl e \<rparr>"

definition fileDone :: "file_state \<Rightarrow> run_result" where
  "fileDone st =
     \<lparr> emitted = printerCalls (fwin st), indexFile = indexStream st,
       outcome = Inr (totalRecords (fwin st), matchCount (fwin st)) \<rparr>"

fun fileLoop ::
  "parser \<Rightarrow> filter_args \<Rightarrow> nat \<Rightarrow> nat \<Rightarrow> (json \<Rightarrow> string) \<Rightarrow> file_state \<Rightarrow> string list
   \<Rightarrow> run_result" where
  "fileLoop P F cb ca stringify st [] =
     (case finalizeRecord F cb ca stringify st (current st) of
        Inl e \<Rightarrow> fileFailed st e
      | Inr st' \<Rightarrow> fileDone st')"
| "fileLoop P F cb ca stringify st (line # rest) =
     (case fileLine P F cb ca stringify st line of
        Inl e \<Rightarrow> fileFailed st e
      | Inr st' \<Rightarrow> fileLoop P F cb ca stringify st' rest)"

definition initialWindow :: window where
  "initialWindow =
     \<lparr> beforeBuffer = [], afterCountdown = 0, recordIndex = 0, totalRecords = 0,
       matchCount = 0, printerCalls = [] \<rparr>"

definition writesIndex :: "string option \<Rightarrow> bool" where
  "writesIndex writeIndexPath = (case writeIndexPath of None \<Rightarrow> False | Some p \<Rightarrow> p \<noteq> [])"

definition processFile ::
  "parser \<Rightarrow> filter_args \<Rightarrow> nat \<Rightarrow> nat \<Rightarrow> string option \<Rightarrow> file_env \<Rightarrow> (json \<Rightarrow> string)
   \<Rightarrow> string list \<Rightarrow> run_result" where
  "processFile P F contextBefore contextAfter writeIndexPath env stringify input =
     fileLoop P F contextBefore contextAfter stringify
       \<lparr> fwin = initialWindow, current = None, lineNumber = 0,
         indexStream = (if writesIndex writeIndexPath then Some [stringify (metaObject env)]
                        else None) \<rparr>
       input"

text \<open>\<^verbatim>\<open>finalizeRecord\<close> of \<^verbatim>\<open>processIndex\<close> (lines 442--479).\<close>

definition finalizeRecordIdx ::
  "filter_args \<Rightarrow> nat \<Rightarrow> nat \<Rightarrow> index_state \<Rightarrow> logrec option \<Rightarrow> error + index_state" where
  "finalizeRecordIdx F contextBeforeCount contextAfterCount st rcd =
     (case rcd of
        None \<Rightarrow> Inr st
      | Some r \<Rightarrow>
          (let w1 = (iwin st)\<lparr> recordIndex := recordIndex (iwin st) + 1,
                               totalRecords := totalRecords (iwin st) + 1 \<rparr>;
               record = r\<lparr> index := JNum (int (recordIndex w1)) \<rparr>
           in case createFilter F record getTextIdx of
                Inl e \<Rightarrow> Inl e
              | Inr isMatch \<Rightarrow>
                  (let w2 = (if isMatch \<and> contextBeforeCount > 0
                             then (let (calls, buf) = printBefore (beforeBuffer w1)
                                   in w1\<lparr> beforeBuffer := buf,
                                          printerCalls := printerCalls w1 @ calls \<rparr>)
                             else w1);
                       shouldPrintAsAfter = (\<not> isMatch \<and> afterCountdown w2 > 0);
                       (w3, record3) =
                         (if (isMatch \<or> shouldPrintAsAfter) \<and> \<not> printed record
                          then (w2\<lparr> printerCalls := printerCalls w2 @
                                       [(if isMatch then Match else ContextAfter, record)] \<rparr>,
                                record\<lparr>printed := True\<rparr>)
                          else (w2, record));
                       w4 = (if isMatch
                             then w3\<lparr> matchCount := matchCount w3 + 1,
                                      afterCountdown := contextAfterCount \<rparr>
                             else if afterCountdown w3 > 0
                             then w3\<lparr> afterCountdown := afterCountdown w3 - 1 \<rparr>
                             else w3);
                       w5 = (if contextBeforeCount > 0
                             then (let buf = beforeBuffer w4 @ [record3]
                                   in w4\<lparr> beforeBuffer :=
                                            (if length buf > contextBeforeCount then tl buf
                                             else buf) \<rparr>)
                             else w4)
                   in Inr (st\<lparr> iwin := w5 \<rparr>))))"

text \<open>
  The record the index reader builds from a parsed line (lines 499--517). The value is
  not \<^verbatim>\<open>null\<close> here: reading a property of \<^verbatim>\<open>null\<close> throws before the record exists.
\<close>

definition recordOfParsed :: "json \<Rightarrow> logrec" where
  "recordOfParsed parsed =
     \<lparr> index = nullish (getProp parsed ''index'') (JNum 0),
       startLine = nullish (getProp parsed ''startLine'') (JNum 0),
       endLine = nullish (getProp parsed ''endLine'')
                   (nullish (getProp parsed ''startLine'') (JNum 0)),
       timestamp = None,
       timestampRaw = nullish (getProp parsed ''timestampRaw'')
                        (nullish (getProp parsed ''time'') JNull),
       timestampMs = (case getProp parsed ''timestampMs'' of
                        Some (JNum ms) \<Rightarrow> Some ms
                      | _ \<Rightarrow> None),
       level = nullish (getProp parsed ''level'') JNull,
       pid = nullish (getProp parsed ''pid'') JNull,
       thread = nullish (getProp parsed ''thread'') JNull,
       location = nullish (getProp parsed ''location'') JNull,
       message = nullish (getProp parsed ''message'') (JStr []),
       messageLines =
         (case getProp parsed ''messageLines'' of
            Some (JArr ms) \<Rightarrow> ms
          | _ \<Rightarrow>
              (case getProp parsed ''message'' of
                 Some m \<Rightarrow> if truthy m then map JStr (splitOn (CHR 0x0A) (toStr m)) else []
               | None \<Rightarrow> [])),
       lines = (case getProp parsed ''lines'' of Some (JArr ls) \<Rightarrow> ls | _ \<Rightarrow> []),
       printed = False \<rparr>"

text \<open>
  The body of the loop of \<^verbatim>\<open>processIndex\<close> (lines 482--520), with \<open>parse\<close> for
  \<^verbatim>\<open>JSON.parse\<close> (\<open>None\<close> where it throws), then the loop and \<^verbatim>\<open>processIndex\<close> up to the
  end of the stream (lines 414--524). The comparison of the metadata with the live
  file (lines 526--533) only writes warnings to standard error and is not modelled.
\<close>

definition indexLine ::
  "(string \<Rightarrow> json option) \<Rightarrow> filter_args \<Rightarrow> nat \<Rightarrow> nat \<Rightarrow> string \<Rightarrow> index_state \<Rightarrow> string
   \<Rightarrow> error + index_state" where
  "indexLine parse F cb ca indexPath st line =
     (let st1 = st\<lparr> ilineNumber := ilineNumber st + 1 \<rparr>
      in if line = [] then Inr st1
         else (case parse line of
                 None \<Rightarrow> Inl (MalformedIndexEntry indexPath (ilineNumber st1))
               | Some parsed \<Rightarrow>
                   if truthy parsed \<and> getProp parsed ''type'' = Some (JStr ''meta'')
                   then Inr (st1\<lparr> meta := Some parsed \<rparr>)
                   else if parsed = JNull then Inl TypeError
                   else finalizeRecordIdx F cb ca st1 (Some (recordOfParsed parsed))))"

definition indexFailed :: "index_state \<Rightarrow> error \<Rightarrow> run_result" where
  "indexFailed st e =
     \<lparr> emitted = printerCalls (iwin st), indexFile = None, outcome = Inl e \<rparr>"

definition indexDone :: "index_state \<Rightarrow> run_result" where
  "indexDone st =
     \<lparr> emitted = printerCalls (iwin st), indexFile = None,
       outcome = Inr (totalRecords (iwin st), matchCount (iwin st)) \<rparr>"

fun indexLoop ::
  "(string \<Rightarrow> json option) \<Rightarrow> filter_args \<Rightarrow> nat \<Rightarrow> nat \<Rightarrow> string \<Rightarrow> index_state
   \<Rightarrow> string list \<Rightarrow> run_result" where
  "indexLoop parse F cb ca indexPath st [] = indexDone st"
| "indexLoop parse F cb ca indexPath st (line # rest) =
     (case indexLine parse F cb ca indexPath st line of
        Inl e \<Rightarrow> indexFailed st e
      | Inr st' \<Rightarrow> indexLoop parse F cb ca indexPath st' rest)"

definition processIndex ::
  "(string \<Rightarrow> json option) \<Rightarrow> filter_args \<Rightarrow> nat \<Rightarrow> nat \<Rightarrow> string \<Rightarrow> string list
   \<Rightarrow> run_result" where
  "processIndex parse F contextBefore contextAfter indexPath input =
     indexLoop parse F contextBefore contextAfter indexPath
       \<lparr> iwin = initialWindow, meta = None, ilineNumber = 0 \<rparr> input"

section \<open>Notions used to state the properties\<close>

text \<open>
  The part of both \<^verbatim>\<open>finalizeRecord\<close> functions after the filter has answered (lines
  345--372 and 451--478), as one function of the answer: the new window and the record
  as it enters the buffer.
\<close>

definition windowStep :: "nat \<Rightarrow> nat \<Rightarrow> bool \<Rightarrow> window \<Rightarrow> logrec \<Rightarrow> window \<times> logrec" where
  "windowStep contextBeforeCount contextAfterCount isMatch w1 record =
     (let w2 = (if isMatch \<and> contextBeforeCount > 0
                then (let (calls, buf) = printBefore (beforeBuffer w1)
                      in w1\<lparr> beforeBuffer := buf,
                             printerCalls := printerCalls w1 @ calls \<rparr>)
                else w1);
          shouldPrintAsAfter = (\<not> isMatch \<and> afterCountdown w2 > 0);
          (w3, record3) =
            (if (isMatch \<or> shouldPrintAsAfter) \<and> \<not> printed record
             then (w2\<lparr> printerCalls := printerCalls w2 @
                          [(if isMatch then Match else ContextAfter, record)] \<rparr>,
                   record\<lparr>printed := True\<rparr>)
             else (w2, record));
          w4 = (if isMatch
                then w3\<lparr> matchCount := matchCount w3 + 1,
                         afterCountdown := contextAfterCount \<rparr>
                else if afterCountdown w3 > 0
                then w3\<lparr> afterCountdown := afterCountdown w3 - 1 \<rparr>
                else w3);
          w5 = (if contextBeforeCount > 0
                then (let buf = beforeBuffer w4 @ [record3]
                      in w4\<lparr> beforeBuffer :=
                               (if length buf > contextBeforeCount then tl buf else buf) \<rparr>)
                else w4)
      in (w5, record3))"

text \<open>The two counters both functions advance first (lines 339--340 and 446--447).\<close>

definition bump :: "window \<Rightarrow> window" where
  "bump w = w\<lparr> recordIndex := recordIndex w + 1, totalRecords := totalRecords w + 1 \<rparr>"

text \<open>
  A record as \<^verbatim>\<open>finalizeRecord\<close> of \<^verbatim>\<open>processFile\<close> completes it (lines 341--342): the
  sequence number and the joined message.
\<close>

definition finalized :: "nat \<Rightarrow> logrec \<Rightarrow> logrec" where
  "finalized n r =
     r\<lparr> index := JNum (int n),
        message := (if messageLines r \<noteq> [] then JStr (joinArr [CHR 0x0A] (messageLines r))
                    else JStr []) \<rparr>"

text \<open>
  The records the loop of \<^verbatim>\<open>processFile\<close> hands to \<^verbatim>\<open>finalizeRecord\<close>, in order, from the
  open record \<open>cur\<close> and the line count \<open>n\<close> on.
\<close>

fun assemble :: "parser \<Rightarrow> logrec option \<Rightarrow> nat \<Rightarrow> string list \<Rightarrow> logrec list" where
  "assemble P cur n [] = (case cur of None \<Rightarrow> [] | Some r \<Rightarrow> [r])"
| "assemble P cur n (line # rest) =
     (if isStart P line
      then (case cur of None \<Rightarrow> [] | Some r \<Rightarrow> [r]) @
           assemble P (Some (createRecord P line (n + 1))) (n + 1) rest
      else (case cur of
              Some c \<Rightarrow> assemble P (Some (appendLine c line (n + 1))) (n + 1) rest
            | None \<Rightarrow> assemble P (Some (createRecord P line (n + 1))) (n + 1) rest))"

definition records :: "parser \<Rightarrow> string list \<Rightarrow> logrec list" where
  "records P input = assemble P None 0 input"

text \<open>The finalized records of a run: the \<open>k\<close>-th record carries sequence number \<open>k\<close>.\<close>

fun numbered :: "nat \<Rightarrow> logrec list \<Rightarrow> logrec list" where
  "numbered n [] = []"
| "numbered n (r # rs) = finalized (Suc n) r # numbered (Suc n) rs"

definition finalizedRecords :: "parser \<Rightarrow> string list \<Rightarrow> logrec list" where
  "finalizedRecords P input = numbered 0 (records P input)"

text \<open>
  \<^verbatim>\<open>finalizeRecord\<close> of \<^verbatim>\<open>processFile\<close> applied to a list of records in turn, from a window
  and an index file.
\<close>

fun finalizeAll ::
  "filter_args \<Rightarrow> nat \<Rightarrow> nat \<Rightarrow> (json \<Rightarrow> string) \<Rightarrow> window \<Rightarrow> string list option
   \<Rightarrow> logrec list \<Rightarrow> run_result" where
  "finalizeAll F cb ca stringify w ix [] =
     \<lparr> emitted = printerCalls w, indexFile = ix,
       outcome = Inr (totalRecords w, matchCount w) \<rparr>"
| "finalizeAll F cb ca stringify w ix (r # rs) =
     (case finalizeRecord F cb ca stringify
             \<lparr> fwin = w, current = None, lineNumber = 0, indexStream = ix \<rparr> (Some r) of
        Inl e \<Rightarrow> \<lparr> emitted = printerCalls w, indexFile = ix, outcome = Inl e \<rparr>
      | Inr st \<Rightarrow> finalizeAll F cb ca stringify (fwin st) (indexStream st) rs)"

text \<open>What is observable of an emitted record: its role and its persisted shape.\<close>

definition view :: "role \<times> logrec \<Rightarrow> role \<times> json" where
  "view c = (fst c, serializeRecordForIndex (snd c))"

text \<open>
  The pieces of \<open>windowStep\<close>: the printer calls of the buffer loop, the call for the
  record itself, the record with its flag, and the buffer after the push (lines
  367--372).
\<close>

definition flushCalls :: "nat \<Rightarrow> bool \<Rightarrow> window \<Rightarrow> (role \<times> logrec) list" where
  "flushCalls cb m w =
     (if m \<and> cb > 0 then map (Pair ContextBefore) (filter (\<lambda>c. \<not> printed c) (beforeBuffer w))
      else [])"

definition ownCalls :: "bool \<Rightarrow> window \<Rightarrow> logrec \<Rightarrow> (role \<times> logrec) list" where
  "ownCalls m w r =
     (if (m \<or> afterCountdown w > 0) \<and> \<not> printed r
      then [(if m then Match else ContextAfter, r)] else [])"

definition marked :: "bool \<Rightarrow> window \<Rightarrow> logrec \<Rightarrow> logrec" where
  "marked m w r = (if (m \<or> afterCountdown w > 0) \<and> \<not> printed r then r\<lparr>printed := True\<rparr> else r)"

definition pushed :: "nat \<Rightarrow> logrec list \<Rightarrow> logrec \<Rightarrow> logrec list" where
  "pushed cb buf r =
     (if cb > 0 then (if length (buf @ [r]) > cb then tl (buf @ [r]) else buf @ [r]) else buf)"

text \<open>
  Invariants of the window. The sequence number of a printer call is the \<open>index\<close> of
  its record. \<open>distinctInv\<close>: no sequence number was printed twice, the buffer holds
  records with different sequence numbers, none beyond the counter, and a buffered
  record whose flag is unset has not been printed. \<open>roleInv\<close>: a record the filter
  accepts was printed as a match only, and carries the flag once it is buffered.
\<close>

definition seqOf :: "role \<times> logrec \<Rightarrow> json" where
  "seqOf c = index (snd c)"

definition numberedUpTo :: "nat \<Rightarrow> json \<Rightarrow> bool" where
  "numberedUpTo n j = (case j of JNum i \<Rightarrow> 0 \<le> i \<and> i \<le> int n | _ \<Rightarrow> False)"

definition distinctInv :: "window \<Rightarrow> bool" where
  "distinctInv w \<longleftrightarrow>
     distinct (map seqOf (printerCalls w)) \<and>
     distinct (map index (beforeBuffer w)) \<and>
     (\<forall>c \<in> set (printerCalls w). numberedUpTo (recordIndex w) (seqOf c)) \<and>
     (\<forall>r \<in> set (beforeBuffer w). numberedUpTo (recordIndex w) (index r)) \<and>
     (\<forall>r \<in> set (beforeBuffer w). \<not> printed r \<longrightarrow> index r \<notin> seqOf ` set (printerCalls w))"

definition roleInv :: "filter_args \<Rightarrow> window \<Rightarrow> bool" where
  "roleInv F w \<longleftrightarrow>
     (\<forall>c \<in> set (printerCalls w). createFilter F (snd c) getText = Inr True \<longrightarrow> fst c = Match) \<and>
     (\<forall>r \<in> set (beforeBuffer w). createFilter F r getText = Inr True \<longrightarrow> printed r)"

text \<open>
  The window and the index file after \<^verbatim>\<open>finalizeRecord\<close> of \<^verbatim>\<open>processFile\<close> has handled
  record \<open>r\<close> with filter answer \<open>m\<close>; \<open>feed\<close> repeats it over records the filter does
  not fail on. \<open>rawShaped\<close> holds of the records the assembler builds: level and thread
  are strings or null, the line numbers are set and the flag is not.
\<close>

definition nextWindow :: "nat \<Rightarrow> nat \<Rightarrow> bool \<Rightarrow> window \<Rightarrow> logrec \<Rightarrow> window" where
  "nextWindow cb ca m w r =
     fst (windowStep cb ca m (bump w) (finalized (Suc (recordIndex w)) r))"

definition nextIndex ::
  "(json \<Rightarrow> string) \<Rightarrow> nat \<Rightarrow> logrec \<Rightarrow> string list option \<Rightarrow> string list option" where
  "nextIndex S n r ix =
     (case ix of None \<Rightarrow> None
      | Some written \<Rightarrow> Some (written @ [S (serializeRecordForIndex (finalized n r))]))"

fun feed :: "filter_args \<Rightarrow> nat \<Rightarrow> nat \<Rightarrow> window \<Rightarrow> logrec list \<Rightarrow> window" where
  "feed F cb ca w [] = w"
| "feed F cb ca w (r # rs) =
     feed F cb ca
       (nextWindow cb ca (createFilter F (finalized (Suc (recordIndex w)) r) getText = Inr True) w r)
       rs"

text \<open>No buffered record is left for a later match to print as before-context.\<close>

definition flushFree :: "nat \<Rightarrow> window \<Rightarrow> bool" where
  "flushFree cb w \<longleftrightarrow> flushCalls cb True w = []"

text \<open>The index file after the records \<open>rs\<close>, the first numbered \<open>n + 1\<close>.\<close>

fun indexAfter :: "(json \<Rightarrow> string) \<Rightarrow> nat \<Rightarrow> string list option \<Rightarrow> logrec list \<Rightarrow> string list option" where
  "indexAfter S n ix [] = ix"
| "indexAfter S n ix (r # rs) = indexAfter S (Suc n) (nextIndex S (Suc n) r ix) rs"

definition stringOrNull :: "json \<Rightarrow> bool" where
  "stringOrNull j = (case j of JNull \<Rightarrow> True | JStr s \<Rightarrow> True | _ \<Rightarrow> False)"

definition rawShaped :: "logrec \<Rightarrow> bool" where
  "rawShaped r \<longleftrightarrow>
     stringOrNull (level r) \<and> stringOrNull (thread r) \<and> \<not> printed r \<and>
     startLine r \<noteq> JNull \<and> endLine r \<noteq> JNull"

text \<open>
  Notions for the comparison of the two paths. \<open>writtenIndex\<close> is the index file a run
  leaves, line by line: every \<^verbatim>\<open>indexStream.write\<close> call writes one line. \<open>reread\<close> is the
  record the index reader builds from the line written for a record, with the flag
  carried over; \<open>mapWindow\<close> applies a function to the records a window holds;
  \<open>stable\<close> records are those whose numbers and message survive \<^verbatim>\<open>??\<close> unchanged.
\<close>

definition reread :: "logrec \<Rightarrow> logrec" where
  "reread r = (recordOfParsed (serializeRecordForIndex r))\<lparr>printed := printed r\<rparr>"

definition mapWindow :: "(logrec \<Rightarrow> logrec) \<Rightarrow> window \<Rightarrow> window" where
  "mapWindow f w =
     w\<lparr> beforeBuffer := map f (beforeBuffer w), printerCalls := map (apsnd f) (printerCalls w) \<rparr>"

definition stable :: "logrec \<Rightarrow> bool" where
  "stable r \<longleftrightarrow> index r \<noteq> JNull \<and> startLine r \<noteq> JNull \<and> endLine r \<noteq> JNull \<and> message r \<noteq> JNull"

definition stableWin :: "window \<Rightarrow> bool" where
  "stableWin w \<longleftrightarrow> (\<forall>c \<in> set (printerCalls w). stable (snd c)) \<and> (\<forall>r \<in> set (beforeBuffer w). stable r)"

definition writtenIndex :: "run_result \<Rightarrow> string list" where
  "writtenIndex res = (case indexFile res of Some ls \<Rightarrow> ls | None \<Rightarrow> [])"

section \<open>The built-in patterns and a sample run\<close>

text \<open>
  The two patterns the program builds when the configuration names no date field:
  \<^verbatim>\<open>TIMESTAMP_FALLBACK\<close> (line 27) anchored at the start of the line (line 102), and
  \<^verbatim>\<open>headerRegex\<close> (line 103). In \<open>likePattern\<close> the letter \<open>d\<close> of the pattern stands for
  a digit, every other character for itself.
\<close>

definition isDigit :: "char \<Rightarrow> bool" where
  "isDigit c = (48 \<le> (of_char c :: nat) \<and> (of_char c :: nat) \<le> 57)"

definition isUpper :: "char \<Rightarrow> bool" where
  "isUpper c = (65 \<le> (of_char c :: nat) \<and> (of_char c :: nat) \<le> 90)"

fun likePattern :: "string \<Rightarrow> string \<Rightarrow> bool" where
  "likePattern [] [] = True"
| "likePattern (p # ps) (c # cs) =
     ((if p = CHR ''d'' then isDigit c else c = p) \<and> likePattern ps cs)"
| "likePattern ps cs = False"

definition timestampFallback :: "string \<Rightarrow> string option" where
  "timestampFallback line =
     (if likePattern ''dddd-dd-dd dd:dd:dd'' (take 19 line)
      then (if likePattern ''.ddd'' (take 4 (drop 19 line)) \<or>
               likePattern '',ddd'' (take 4 (drop 19 line))
            then Some (take 23 line) else Some (take 19 line))
      else None)"

definition headerRegex ::
  "string \<Rightarrow> (string \<times> string \<times> string \<times> string \<times> string) option" where
  "headerRegex line =
     (case timestampFallback line of
        None \<Rightarrow> None
      | Some ts \<Rightarrow>
          (let r0 = drop (length ts) line;
               r1 = dropWhile isWhiteSpace r0;
               lv = takeWhile isUpper r1;
               r2 = dropWhile isUpper r1;
               r3 = dropWhile isWhiteSpace r2;
               pd = takeWhile isDigit r3;
               r4 = dropWhile isDigit r3;
               r5 = dropWhile isWhiteSpace r4;
               r6 = dropWhile (\<lambda>c. c = CHR ''-'') r5;
               r7 = dropWhile isWhiteSpace r6;
               th = takeWhile (\<lambda>c. c \<noteq> CHR '']'') (drop 1 r7);
               r8 = dropWhile (\<lambda>c. c \<noteq> CHR '']'') (drop 1 r7);
               rest = dropWhile isWhiteSpace (drop 1 r8)
           in if length r1 < length r0 \<and> lv \<noteq> [] \<and> length r3 < length r2 \<and> pd \<noteq> [] \<and>
                 length r5 < length r4 \<and> length r6 < length r5 \<and> length r7 < length r6 \<and>
                 take 1 r7 = ''['' \<and> th \<noteq> [] \<and> take 1 r8 = '']'' \<and>
                 length rest < length (drop 1 r8) \<and>
                 CHR 0x0A \<notin> set rest \<and> CHR 0x0D \<notin> set rest
              then Some (ts, lv, pd, th, rest)
              else None))"

text \<open>
  A stand-in for \<^verbatim>\<open>Date\<close> in the sample run: it accepts the built-in time stamp format
  and reads its digits as one number, which orders such time stamps as \<^verbatim>\<open>Date\<close> does.
\<close>

definition digitsValue :: "string \<Rightarrow> int" where
  "digitsValue s = foldl (\<lambda>acc c. 10 * acc + (of_char c - 48)) 0 (filter isDigit s)"

definition sampleClock :: "string \<Rightarrow> int option" where
  "sampleClock s =
     (if timestampFallback s = Some s then Some (digitsValue s) else None)"

definition defaultParser :: parser where
  "defaultParser =
     \<lparr> startMatch = timestampFallback, headerMatch = headerRegex, dateParse = sampleClock \<rparr>"

definition sampleLog :: "string list" where
  "sampleLog =
     [''Starting application'',
      ''2024-01-01 00:00:00 ERROR 1 - [t1] X.Y : boom'',
      CHR 0x09 # ''at A.b(A.java:1)'',
      [],
      ''2024-01-01 00:00:01 INFO 1 - [t1] X.Y : ok'',
      ''2024-01-01 00:00:02 ERROR 1 --- [t2] X.Z: bang'',
      ''2024-01-01 00:00:03 INFO 1 - [t2] done '',
      ''2024-01-01 00:00:04 DEBUG 1 - [t2] X.Z : idle'']"

definition sampleFilter :: filter_args where
  "sampleFilter =
     \<lparr> levels = [''error''], keywordsArg = [], threadArg = None,
       fromMs = None, toMs = None, ignoreCase = True \<rparr>"

definition sampleEnv :: file_env where
  "sampleEnv =
     \<lparr> resolvedFile = ''/var/log/app.log'', fileStat = Some (312, 1704067200000),
       generatedAt = ''2024-01-02T00:00:00.000Z'' \<rparr>"

section \<open>The JSON text layer\<close>

text \<open>
  \<^verbatim>\<open>JSON.stringify\<close> and \<^verbatim>\<open>JSON.parse\<close> belong to the runtime. The properties below take
  them as parameters; the two functions here follow the JSON grammar on the values of
  this model (integers for numbers, characters up to code 255) and serve the sample
  runs. \<open>jsonParse\<close> answers \<open>None\<close> where \<^verbatim>\<open>JSON.parse\<close> throws.
\<close>

definition hexDigit :: "nat \<Rightarrow> char" where
  "hexDigit d = (if d < 10 then char_of (48 + d) else char_of (87 + d))"

definition quoteChar :: "char \<Rightarrow> string" where
  "quoteChar c =
     (if c = CHR 0x22 then [CHR 0x5C, CHR 0x22]
      else if c = CHR 0x5C then [CHR 0x5C, CHR 0x5C]
      else if c = CHR 0x0A then [CHR 0x5C, CHR ''n'']
      else if c = CHR 0x0D then [CHR 0x5C, CHR ''r'']
      else if c = CHR 0x09 then [CHR 0x5C, CHR ''t'']
      else if c = CHR 0x08 then [CHR 0x5C, CHR ''b'']
      else if c = CHR 0x0C then [CHR 0x5C, CHR ''f'']
      else if (of_char c :: nat) < 32
      then [CHR 0x5C, CHR ''u'', CHR ''0'', CHR ''0'',
            hexDigit ((of_char c :: nat) div 16), hexDigit ((of_char c :: nat) mod 16)]
      else [c])"

definition quote :: "string \<Rightarrow> string" where
  "quote s = CHR 0x22 # concat (map quoteChar s) @ [CHR 0x22]"

fun jsonStringify :: "json \<Rightarrow> string"
  and stringifyElems :: "json list \<Rightarrow> string list"
  and stringifyMembers :: "(string \<times> json) list \<Rightarrow> string list"
  and stringifyMember :: "string \<times> json \<Rightarrow> string" where
  "jsonStringify JNull = ''null''"
| "jsonStringify (JBool b) = (if b then ''true'' else ''false'')"
| "jsonStringify (JNum n) = intToString n"
| "jsonStringify (JStr s) = quote s"
| "jsonStringify (JArr xs) = ''['' @ joinStrings '','' (stringifyElems xs) @ '']''"
| "jsonStringify (JObj kvs) = ''{'' @ joinStrings '','' (stringifyMembers kvs) @ ''}''"
| "stringifyElems [] = []"
| "stringifyElems (x # xs) = jsonStringify x # stringifyElems xs"
| "stringifyMembers [] = []"
| "stringifyMembers (kv # kvs) = stringifyMember kv # stringifyMembers kvs"
| "stringifyMember (k, v) = quote k @ '':'' @ jsonStringify v"

definition isJsonSpace :: "char \<Rightarrow> bool" where
  "isJsonSpace c = (c = CHR '' '' \<or> c = CHR 0x09 \<or> c = CHR 0x0A \<or> c = CHR 0x0D)"

definition skipWs :: "string \<Rightarrow> string" where
  "skipWs s = dropWhile isJsonSpace s"

definition hexValue :: "char \<Rightarrow> nat option" where
  "hexValue c =
     (let n = (of_char c :: nat)
      in if 48 \<le> n \<and> n \<le> 57 then Some (n - 48)
         else if 97 \<le> n \<and> n \<le> 102 then Some (n - 87)
         else if 65 \<le> n \<and> n \<le> 70 then Some (n - 55)
         else None)"

definition unicodeEscape :: "char \<Rightarrow> char \<Rightarrow> char \<Rightarrow> char \<Rightarrow> char option" where
  "unicodeEscape a b c d =
     (case (hexValue a, hexValue b, hexValue c, hexValue d) of
        (Some h3, Some h2, Some h1, Some h0) \<Rightarrow>
          if h3 = 0 \<and> h2 = 0 then Some (char_of (16 * h1 + h0)) else None
      | _ \<Rightarrow> None)"

definition simpleEscape :: "char \<Rightarrow> char option" where
  "simpleEscape c =
     (if c = CHR 0x22 \<or> c = CHR 0x5C \<or> c = CHR ''/'' then Some c
      else if c = CHR ''n'' then Some (CHR 0x0A)
      else if c = CHR ''r'' then Some (CHR 0x0D)
      else if c = CHR ''t'' then Some (CHR 0x09)
      else if c = CHR ''b'' then Some (CHR 0x08)
      else if c = CHR ''f'' then Some (CHR 0x0C)
      else None)"

definition consTo :: "'a \<Rightarrow> ('a list \<times> string) option \<Rightarrow> ('a list \<times> string) option" where
  "consTo x res = (case res of None \<Rightarrow> None | Some (xs, rest) \<Rightarrow> Some (x # xs, rest))"

text \<open>The characters of a string literal after its opening quote, and what follows it.\<close>

fun parseChars :: "string \<Rightarrow> (string \<times> string) option" where
  "parseChars [] = None"
| "parseChars (c # cs) =
     (if c = CHR 0x22 then Some ([], cs)
      else if c = CHR 0x5C
      then (case cs of
              [] \<Rightarrow> None
            | e # es \<Rightarrow>
                if e = CHR ''u''
                then (case es of
                        a # b # x # y # after \<Rightarrow>
                          (case unicodeEscape a b x y of
                             None \<Rightarrow> None
                           | Some u \<Rightarrow> consTo u (parseChars after))
                      | _ \<Rightarrow> None)
                else (case simpleEscape e of
                        None \<Rightarrow> None
                      | Some u \<Rightarrow> consTo u (parseChars es)))
      else if (of_char c :: nat) < 32 then None
      else consTo c (parseChars cs))"

text \<open>An integer literal: an optional sign, then \<open>0\<close> or digits without a leading zero.\<close>

definition parseNumber :: "string \<Rightarrow> (json \<times> string) option" where
  "parseNumber s =
     (let neg = (take 1 s = ''-'');
          body = (if neg then drop 1 s else s);
          ds = takeWhile isDigit body;
          rest = dropWhile isDigit body
      in if ds = [] \<or> (length ds > 1 \<and> take 1 ds = ''0'') \<or>
            take 1 rest = ''.'' \<or> take 1 rest = ''e'' \<or> take 1 rest = ''E''
         then None
         else Some (JNum (if neg then - digitsValue ds else digitsValue ds), rest))"

fun parseValue :: "nat \<Rightarrow> string \<Rightarrow> (json \<times> string) option"
  and parseElems :: "nat \<Rightarrow> string \<Rightarrow> (json list \<times> string) option"
  and parseMembers :: "nat \<Rightarrow> string \<Rightarrow> ((string \<times> json) list \<times> string) option" where
  "parseValue 0 s = None"
| "parseValue (Suc n) s =
     (case skipWs s of
        [] \<Rightarrow> None
      | c # cs \<Rightarrow>
          if c = CHR 0x22
          then (case parseChars cs of None \<Rightarrow> None | Some (str, rest) \<Rightarrow> Some (JStr str, rest))
          else if c = CHR ''[''
          then (case skipWs cs of
                  [] \<Rightarrow> None
                | d # ds \<Rightarrow>
                    if d = CHR '']'' then Some (JArr [], ds)
                    else (case parseElems n cs of
                            None \<Rightarrow> None
                          | Some (xs, rest) \<Rightarrow> Some (JArr xs, rest)))
          else if c = CHR ''{''
          then (case skipWs cs of
                  [] \<Rightarrow> None
                | d # ds \<Rightarrow>
                    if d = CHR ''}'' then Some (JObj [], ds)
                    else (case parseMembers n cs of
                            None \<Rightarrow> None
                          | Some (kvs, rest) \<Rightarrow> Some (JObj kvs, rest)))
          else if startsWith (c # cs) ''null'' then Some (JNull, drop 4 (c # cs))
          else if startsWith (c # cs) ''true'' then Some (JBool True, drop 4 (c # cs))
          else if startsWith (c # cs) ''false'' then Some (JBool False, drop 5 (c # cs))
          else parseNumber (c # cs))"
| "parseElems 0 s = None"
| "parseElems (Suc n) s =
     (case parseValue n s of
        None \<Rightarrow> None
      | Some (v, rest) \<Rightarrow>
          (case skipWs rest of
             [] \<Rightarrow> None
           | c # cs \<Rightarrow>
               if c = CHR '']'' then Some ([v], cs)
               else if c = CHR '','' then consTo v (parseElems n cs)
               else None))"
| "parseMembers 0 s = None"
| "parseMembers (Suc n) s =
     (case skipWs s of
        [] \<Rightarrow> None
      | q # qs \<Rightarrow>
          if q \<noteq> CHR 0x22 then None
          else (case parseChars qs of
                  None \<Rightarrow> None
                | Some (k, r1) \<Rightarrow>
                    (case skipWs r1 of
                       [] \<Rightarrow> None
                     | colon # r2 \<Rightarrow>
                         if colon \<noteq> CHR '':'' then None
                         else (case parseValue n r2 of
                                 None \<Rightarrow> None
                               | Some (v, r3) \<Rightarrow>
                                   (case skipWs r3 of
                                      [] \<Rightarrow> None
                                    | c # cs \<Rightarrow>
                                        if c = CHR ''}'' then Some ([(k, v)], cs)
                                        else if c = CHR '',''
                                        then consTo (k, v) (parseMembers n cs)
                                        else None)))))"

definition jsonParse :: "string \<Rightarrow> json option" where
  "jsonParse s =
     (case parseValue (Suc (length s)) s of
        None \<Rightarrow> None
      | Some (v, rest) \<Rightarrow> if skipWs rest = [] then Some v else None)"

section \<open>The filter predicate\<close>

text \<open>
  C6. A record without a parsed time stamp (\<open>timestampMs\<close> is null) never satisfies a
  filter that gives a lower bound, an upper bound or both: the predicate returns
  \<^verbatim>\<open>false\<close>, whatever the bounds and the other criteria are.
\<close>

theorem timestamp_absent_excluded:
  assumes "timestampMs record = None" and "fromMs A \<noteq> None \<or> toMs A \<noteq> None"
  shows "createFilter A record gt = Inr False"
  using assms by (auto simp: createFilter_def fromCheck_def toCheck_def split: option.splits)

section \<open>One step of the context window\<close>

lemma printed_update_id: "printed c \<Longrightarrow> c\<lparr>printed := True\<rparr> = c"
  by (cases c) simp

lemma printBefore_calls:
  "fst (printBefore b) = map (Pair ContextBefore) (filter (\<lambda>c. \<not> printed c) b)"
  by (induction b) (auto simp: split_beta Let_def)

lemma printBefore_buffer:
  "snd (printBefore b) = map (\<lambda>c. c\<lparr>printed := True\<rparr>) b"
  by (induction b) (auto simp: split_beta Let_def printed_update_id)

lemma finalizeRecord_Some:
  "finalizeRecord F cb ca S st (Some r) =
     (case createFilter F (finalized (recordIndex (bump (fwin st))) r) getText of
        Inl e \<Rightarrow> Inl e
      | Inr isMatch \<Rightarrow>
          Inr (st\<lparr> fwin := fst (windowStep cb ca isMatch (bump (fwin st))
                                 (finalized (recordIndex (bump (fwin st))) r)),
                    indexStream :=
                      (case indexStream st of
                         None \<Rightarrow> None
                       | Some written \<Rightarrow> Some (written @
                          [S (serializeRecordForIndex
                                (snd (windowStep cb ca isMatch (bump (fwin st))
                                        (finalized (recordIndex (bump (fwin st))) r))))])) \<rparr>))"
  unfolding finalizeRecord_def finalized_def windowStep_def bump_def
  by (simp only: Let_def split_beta fst_conv snd_conv option.case)

lemma finalizeRecordIdx_Some:
  "finalizeRecordIdx F cb ca st (Some r) =
     (case createFilter F (r\<lparr>index := JNum (int (recordIndex (bump (iwin st))))\<rparr>) getTextIdx of
        Inl e \<Rightarrow> Inl e
      | Inr isMatch \<Rightarrow>
          Inr (st\<lparr> iwin := fst (windowStep cb ca isMatch (bump (iwin st))
                                 (r\<lparr>index := JNum (int (recordIndex (bump (iwin st))))\<rparr>)) \<rparr>))"
  unfolding finalizeRecordIdx_def windowStep_def bump_def
  by (simp only: Let_def split_beta fst_conv snd_conv option.case)

lemma getTextIdx_eq: "getTextIdx = getText"
  by (intro ext) (simp add: getTextIdx_def getText_def)

lemma windowStep_snd: "snd (windowStep cb ca m w r) = marked m w r"
  unfolding windowStep_def marked_def
  by (cases m; cases "cb > 0"; simp add: Let_def split_beta)

lemma windowStep_calls:
  "printerCalls (fst (windowStep cb ca m w r)) = printerCalls w @ flushCalls cb m w @ ownCalls m w r"
  unfolding windowStep_def flushCalls_def ownCalls_def
  by (cases m; cases "cb > 0"; simp add: Let_def split_beta printBefore_calls)

lemma windowStep_countdown:
  "afterCountdown (fst (windowStep cb ca m w r)) = (if m then ca else afterCountdown w - 1)"
  unfolding windowStep_def
  by (cases m; cases "cb > 0"; simp add: Let_def split_beta)

lemma windowStep_buffer:
  "beforeBuffer (fst (windowStep cb ca m w r)) =
     pushed cb (if m \<and> cb > 0 then map (\<lambda>c. c\<lparr>printed := True\<rparr>) (beforeBuffer w)
                else beforeBuffer w)
       (marked m w r)"
  unfolding windowStep_def pushed_def marked_def
  by (cases m; cases "cb > 0"; simp add: Let_def split_beta printBefore_buffer)

lemma windowStep_counters:
  "recordIndex (fst (windowStep cb ca m w r)) = recordIndex w"
  "totalRecords (fst (windowStep cb ca m w r)) = totalRecords w"
  "matchCount (fst (windowStep cb ca m w r)) = (if m then matchCount w + 1 else matchCount w)"
  unfolding windowStep_def
  by (cases m; cases "cb > 0"; simp add: Let_def split_beta)+

lemma bump_simps [simp]:
  "beforeBuffer (bump w) = beforeBuffer w"
  "afterCountdown (bump w) = afterCountdown w"
  "recordIndex (bump w) = Suc (recordIndex w)"
  "totalRecords (bump w) = Suc (totalRecords w)"
  "matchCount (bump w) = matchCount w"
  "printerCalls (bump w) = printerCalls w"
  by (simp_all add: bump_def)

lemma set_pushed: "set (pushed cb buf r) \<subseteq> set buf \<union> {r}"
  by (cases buf) (auto simp: pushed_def)

lemma distinct_pushed:
  "distinct (map f buf) \<Longrightarrow> f r \<notin> f ` set buf \<Longrightarrow> distinct (map f (pushed cb buf r))"
  by (cases buf) (auto simp: pushed_def)

lemma numberedUpTo_Suc: "numberedUpTo n j \<Longrightarrow> numberedUpTo (Suc n) j"
  by (auto simp: numberedUpTo_def split: json.splits)

lemma numberedUpTo_fresh: "numberedUpTo n j \<Longrightarrow> j \<noteq> JNum (int (Suc n))"
  by (auto simp: numberedUpTo_def split: json.splits)

lemma numberedUpTo_self: "numberedUpTo (Suc n) (JNum (int (Suc n)))"
  by (simp add: numberedUpTo_def)

lemma seqOf_flushCalls:
  "map seqOf (flushCalls cb m w) =
     (if m \<and> cb > 0 then map index (filter (\<lambda>c. \<not> printed c) (beforeBuffer w)) else [])"
  by (simp add: flushCalls_def seqOf_def comp_def)

lemma seqOf_ownCalls:
  "map seqOf (ownCalls m w r) = (if (m \<or> afterCountdown w > 0) \<and> \<not> printed r then [index r] else [])"
  by (simp add: ownCalls_def seqOf_def)

lemma index_marked [simp]: "index (marked m w r) = index r"
  by (simp add: marked_def)

lemma windowStep_distinctInv:
  assumes inv: "distinctInv w" and idx: "index r = JNum (int (Suc (recordIndex w)))"
  shows "distinctInv (fst (windowStep cb ca m (bump w) r))"
proof -
  let ?w' = "fst (windowStep cb ca m (bump w) r)"
  let ?n = "recordIndex w"
  from inv have d1: "distinct (map seqOf (printerCalls w))"
    and d2: "distinct (map index (beforeBuffer w))"
    and b1: "\<And>c. c \<in> set (printerCalls w) \<Longrightarrow> numberedUpTo ?n (seqOf c)"
    and b2: "\<And>x. x \<in> set (beforeBuffer w) \<Longrightarrow> numberedUpTo ?n (index x)"
    and un: "\<And>x. x \<in> set (beforeBuffer w) \<Longrightarrow> \<not> printed x \<Longrightarrow> index x \<notin> seqOf ` set (printerCalls w)"
    by (auto simp: distinctInv_def)
  have un': "\<And>x c. x \<in> set (beforeBuffer w) \<Longrightarrow> \<not> printed x \<Longrightarrow> c \<in> set (printerCalls w)
                \<Longrightarrow> seqOf c \<noteq> index x"
    using un by force
  have fresh1: "index r \<notin> seqOf ` set (printerCalls w)"
    using b1 numberedUpTo_fresh idx by fastforce
  have fresh2: "index r \<notin> index ` set (beforeBuffer w)"
    using b2 numberedUpTo_fresh idx by fastforce
  have calls: "printerCalls ?w' = printerCalls w @ flushCalls cb m (bump w) @ ownCalls m (bump w) r"
    by (simp add: windowStep_calls)
  have A: "distinct (map seqOf (printerCalls ?w'))"
    unfolding calls using d1 d2 fresh1 fresh2 un'
    by (auto simp: seqOf_flushCalls seqOf_ownCalls distinct_map_filter)
  let ?buf = "if m \<and> cb > 0 then map (\<lambda>c. c\<lparr>printed := True\<rparr>) (beforeBuffer w) else beforeBuffer w"
  have buf: "beforeBuffer ?w' = pushed cb ?buf (marked m (bump w) r)"
    using windowStep_buffer [of cb ca m "bump w" r] by simp
  have idxbuf: "map index ?buf = map index (beforeBuffer w)"
    by (simp add: comp_def)
  have B: "distinct (map index (beforeBuffer ?w'))"
    unfolding buf
  proof (rule distinct_pushed)
    show "distinct (map index ?buf)" using d2 idxbuf by simp
    have "index ` set ?buf = index ` set (beforeBuffer w)"
      using idxbuf by (metis set_map)
    then show "index (marked m (bump w) r) \<notin> index ` set ?buf"
      using fresh2 by simp
  qed
  have C: "\<forall>c \<in> set (printerCalls ?w'). numberedUpTo (recordIndex ?w') (seqOf c)"
    unfolding calls windowStep_counters
    using b1 b2 numberedUpTo_Suc idx numberedUpTo_self
    by (auto simp: flushCalls_def ownCalls_def seqOf_def split: if_splits)
  have D: "\<forall>x \<in> set (beforeBuffer ?w'). numberedUpTo (recordIndex ?w') (index x)"
  proof
    fix x assume "x \<in> set (beforeBuffer ?w')"
    then have "x \<in> set ?buf \<or> x = marked m (bump w) r"
      unfolding buf using set_pushed by fastforce
    then show "numberedUpTo (recordIndex ?w') (index x)"
      unfolding windowStep_counters
      using b2 numberedUpTo_Suc idx numberedUpTo_self
      by (auto split: if_splits)
  qed
  have E: "\<forall>x \<in> set (beforeBuffer ?w'). \<not> printed x \<longrightarrow> index x \<notin> seqOf ` set (printerCalls ?w')"
  proof (intro ballI impI)
    fix x assume x: "x \<in> set (beforeBuffer ?w')" and np: "\<not> printed x"
    from x have "x \<in> set ?buf \<or> x = marked m (bump w) r"
      unfolding buf using set_pushed by fastforce
    then show "index x \<notin> seqOf ` set (printerCalls ?w')"
    proof
      assume xb: "x \<in> set ?buf"
      with np have nf: "\<not> (m \<and> cb > 0)" by (auto split: if_splits)
      with xb have xo: "x \<in> set (beforeBuffer w)" by (auto split: if_splits)
      have "index x \<noteq> index r" using fresh2 xo by (metis image_eqI)
      moreover have "index x \<notin> seqOf ` set (printerCalls w)" using un xo np by simp
      ultimately show ?thesis
        unfolding calls using nf
        by (auto simp: flushCalls_def ownCalls_def seqOf_def split: if_splits)
    next
      assume xm: "x = marked m (bump w) r"
      with np have own: "ownCalls m (bump w) r = []"
        by (auto simp: marked_def ownCalls_def split: if_splits)
      have "index r \<notin> seqOf ` set (flushCalls cb m (bump w))"
        using fresh2 by (auto simp: flushCalls_def seqOf_def split: if_splits)
      then show ?thesis
        unfolding calls own using fresh1 xm by auto
    qed
  qed
  from A B C D E show ?thesis
    unfolding distinctInv_def by blast
qed

lemma createFilter_cong:
  assumes "timestampMs r = timestampMs r'" "level r = level r'" "thread r = thread r'"
    "lines r = lines r'"
  shows "createFilter F r getText = createFilter F r' getText"
proof -
  have 1: "fromCheck F r = fromCheck F r'" unfolding fromCheck_def assms ..
  have 2: "toCheck F r = toCheck F r'" unfolding toCheck_def assms ..
  have 3: "levelCheck F r = levelCheck F r'" unfolding levelCheck_def assms ..
  have 4: "threadCheck F r = threadCheck F r'" unfolding threadCheck_def assms ..
  have 5: "keywordCheck F getText r = keywordCheck F getText r'"
    unfolding keywordCheck_def getText_def assms ..
  show ?thesis unfolding createFilter_def 1 2 3 4 5 ..
qed

lemma createFilter_printed [simp]:
  "createFilter F (r\<lparr>printed := b\<rparr>) getText = createFilter F r getText"
  by (rule createFilter_cong) simp_all

lemma createFilter_marked [simp]:
  "createFilter F (marked m w r) getText = createFilter F r getText"
  by (simp add: marked_def)

lemma windowStep_roleInv:
  assumes inv: "roleInv F w" and flt: "createFilter F r getText = Inr m"
  shows "roleInv F (fst (windowStep cb ca m (bump w) r))"
proof -
  let ?w' = "fst (windowStep cb ca m (bump w) r)"
  from inv have c1: "\<And>c. c \<in> set (printerCalls w) \<Longrightarrow> createFilter F (snd c) getText = Inr True
                      \<Longrightarrow> fst c = Match"
    and b1: "\<And>x. x \<in> set (beforeBuffer w) \<Longrightarrow> createFilter F x getText = Inr True \<Longrightarrow> printed x"
    by (auto simp: roleInv_def)
  have calls: "printerCalls ?w' = printerCalls w @ flushCalls cb m (bump w) @ ownCalls m (bump w) r"
    by (simp add: windowStep_calls)
  let ?buf = "if m \<and> cb > 0 then map (\<lambda>c. c\<lparr>printed := True\<rparr>) (beforeBuffer w) else beforeBuffer w"
  have buf: "beforeBuffer ?w' = pushed cb ?buf (marked m (bump w) r)"
    using windowStep_buffer [of cb ca m "bump w" r] by simp
  have A: "\<forall>c \<in> set (printerCalls ?w'). createFilter F (snd c) getText = Inr True \<longrightarrow> fst c = Match"
    unfolding calls using c1 b1 flt
    by (auto simp: flushCalls_def ownCalls_def split: if_splits)
  have B: "\<forall>x \<in> set (beforeBuffer ?w'). createFilter F x getText = Inr True \<longrightarrow> printed x"
  proof (intro ballI impI)
    fix x assume x: "x \<in> set (beforeBuffer ?w')" and acc: "createFilter F x getText = Inr True"
    from x have "x \<in> set ?buf \<or> x = marked m (bump w) r"
      unfolding buf using set_pushed by fastforce
    then show "printed x"
    proof
      assume "x \<in> set ?buf"
      then show ?thesis using b1 acc by (auto split: if_splits)
    next
      assume xm: "x = marked m (bump w) r"
      with acc flt have "m" by simp
      then show ?thesis using xm by (simp add: marked_def)
    qed
  qed
  from A B show ?thesis unfolding roleInv_def by blast
qed

lemma initialWindow_distinctInv: "distinctInv initialWindow"
  by (simp add: distinctInv_def initialWindow_def)

lemma initialWindow_roleInv: "roleInv F initialWindow"
  by (simp add: roleInv_def initialWindow_def)

lemma index_finalized [simp]: "index (finalized n r) = JNum (int n)"
  by (simp add: finalized_def)

lemma finalizeRecord_distinctInv:
  assumes "finalizeRecord F cb ca S st rcd = Inr st'" and "distinctInv (fwin st)"
  shows "distinctInv (fwin st')"
proof (cases rcd)
  case None
  with assms show ?thesis by (simp add: finalizeRecord_def)
next
  case (Some r)
  with assms(1) obtain m where
    "st' = st\<lparr> fwin := fst (windowStep cb ca m (bump (fwin st))
                                 (finalized (recordIndex (bump (fwin st))) r)),
                    indexStream :=
                      (case indexStream st of
                         None \<Rightarrow> None
                       | Some written \<Rightarrow> Some (written @
                          [S (serializeRecordForIndex
                                (snd (windowStep cb ca m (bump (fwin st))
                                        (finalized (recordIndex (bump (fwin st))) r))))])) \<rparr>"
    by (auto simp: finalizeRecord_Some split: sum.splits)
  then have "fwin st' = fst (windowStep cb ca m (bump (fwin st))
                                 (finalized (recordIndex (bump (fwin st))) r))"
    by simp
  with assms(2) show ?thesis
    by (simp add: windowStep_distinctInv)
qed

lemma finalizeRecord_roleInv:
  assumes "finalizeRecord F cb ca S st rcd = Inr st'" and "roleInv F (fwin st)"
  shows "roleInv F (fwin st')"
proof (cases rcd)
  case None
  with assms show ?thesis by (simp add: finalizeRecord_def)
next
  case (Some r)
  with assms(1) obtain m where
    m: "createFilter F (finalized (recordIndex (bump (fwin st))) r) getText = Inr m" and
    "st' = st\<lparr> fwin := fst (windowStep cb ca m (bump (fwin st))
                                 (finalized (recordIndex (bump (fwin st))) r)),
                    indexStream :=
                      (case indexStream st of
                         None \<Rightarrow> None
                       | Some written \<Rightarrow> Some (written @
                          [S (serializeRecordForIndex
                                (snd (windowStep cb ca m (bump (fwin st))
                                        (finalized (recordIndex (bump (fwin st))) r))))])) \<rparr>"
    by (auto simp: finalizeRecord_Some split: sum.splits)
  then have "fwin st' = fst (windowStep cb ca m (bump (fwin st))
                                 (finalized (recordIndex (bump (fwin st))) r))"
    by simp
  with assms(2) m show ?thesis
    by (simp add: windowStep_roleInv)
qed

lemma finalizeRecordIdx_distinctInv:
  assumes "finalizeRecordIdx F cb ca st rcd = Inr st'" and "distinctInv (iwin st)"
  shows "distinctInv (iwin st')"
proof (cases rcd)
  case None
  with assms show ?thesis by (simp add: finalizeRecordIdx_def)
next
  case (Some r)
  with assms(1) obtain m where
    "st' = st\<lparr> iwin := fst (windowStep cb ca m (bump (iwin st))
                                 (r\<lparr>index := JNum (int (recordIndex (bump (iwin st))))\<rparr>)) \<rparr>"
    by (auto simp: finalizeRecordIdx_Some split: sum.splits)
  then have "iwin st' = fst (windowStep cb ca m (bump (iwin st))
                                 (r\<lparr>index := JNum (int (recordIndex (bump (iwin st))))\<rparr>))"
    by simp
  with assms(2) show ?thesis
    by (simp add: windowStep_distinctInv)
qed

lemma finalizeRecordIdx_roleInv:
  assumes "finalizeRecordIdx F cb ca st rcd = Inr st'" and "roleInv F (iwin st)"
  shows "roleInv F (iwin st')"
proof (cases rcd)
  case None
  with assms show ?thesis by (simp add: finalizeRecordIdx_def)
next
  case (Some r)
  with assms(1) obtain m where
    m: "createFilter F (r\<lparr>index := JNum (int (recordIndex (bump (iwin st))))\<rparr>) getText = Inr m" and
    "st' = st\<lparr> iwin := fst (windowStep cb ca m (bump (iwin st))
                                 (r\<lparr>index := JNum (int (recordIndex (bump (iwin st))))\<rparr>)) \<rparr>"
    by (auto simp: finalizeRecordIdx_Some getTextIdx_eq split: sum.splits)
  then have "iwin st' = fst (windowStep cb ca m (bump (iwin st))
                                 (r\<lparr>index := JNum (int (recordIndex (bump (iwin st))))\<rparr>))"
    by simp
  with assms(2) m show ?thesis
    by (simp add: windowStep_roleInv)
qed

lemma fileLine_fwin:
  assumes "fileLine P F cb ca S st line = Inr st'"
  shows "fwin st' = fwin st \<or>
         (\<exists>s1 s2 rcd. fwin s1 = fwin st \<and> finalizeRecord F cb ca S s1 rcd = Inr s2 \<and>
                  fwin st' = fwin s2)"
proof (cases "isStart P line")
  case True
  with assms obtain s2 where
    "finalizeRecord F cb ca S (st\<lparr>lineNumber := lineNumber st + 1\<rparr>) (current st) = Inr s2"
    and "st' = s2\<lparr>current := Some (createRecord P line (lineNumber s2))\<rparr>"
    by (auto simp: fileLine_def Let_def split: sum.splits)
  then show ?thesis
    by (intro disjI2 exI [of _ "st\<lparr>lineNumber := lineNumber st + 1\<rparr>"] exI [of _ s2]
        exI [of _ "current st"]) simp
next
  case False
  with assms show ?thesis
    by (auto simp: fileLine_def Let_def split: option.splits)
qed

lemma fileLoop_preserves:
  assumes step: "\<And>s rcd s'. finalizeRecord F cb ca S s rcd = Inr s' \<Longrightarrow> Q (fwin s) \<Longrightarrow> Q (fwin s')"
    and init: "Q (fwin st)"
  shows "\<exists>w. Q w \<and> emitted (fileLoop P F cb ca S st input) = printerCalls w"
  using init
proof (induction input arbitrary: st)
  case Nil
  show ?case
  proof (cases "finalizeRecord F cb ca S st (current st)")
    case (Inl e)
    then show ?thesis using Nil by (auto simp: fileFailed_def)
  next
    case (Inr s')
    then show ?thesis using Nil step by (auto simp: fileDone_def)
  qed
next
  case (Cons line rest)
  show ?case
  proof (cases "fileLine P F cb ca S st line")
    case (Inl e)
    then show ?thesis using Cons.prems by (auto simp: fileFailed_def)
  next
    case (Inr s')
    from fileLine_fwin [OF Inr] have "Q (fwin s')"
      using Cons.prems step by (metis (full_types))
    from Cons.IH [OF this] show ?thesis using Inr by simp
  qed
qed

lemma indexLine_iwin:
  assumes "indexLine J F cb ca path st line = Inr st'"
  shows "iwin st' = iwin st \<or>
         (\<exists>s1 s2 rcd. iwin s1 = iwin st \<and> finalizeRecordIdx F cb ca s1 rcd = Inr s2 \<and>
                  iwin st' = iwin s2)"
proof (cases "line = []")
  case True
  with assms show ?thesis by (auto simp: indexLine_def Let_def)
next
  case False
  show ?thesis
  proof (cases "J line")
    case None
    with False assms show ?thesis by (simp add: indexLine_def Let_def)
  next
    case (Some parsed)
    show ?thesis
    proof (cases "truthy parsed \<and> getProp parsed ''type'' = Some (JStr ''meta'')")
      case True
      with False Some assms show ?thesis by (auto simp: indexLine_def Let_def)
    next
      case nm: False
      with False Some assms have
        "finalizeRecordIdx F cb ca (st\<lparr> ilineNumber := ilineNumber st + 1 \<rparr>)
           (Some (recordOfParsed parsed)) = Inr st'"
        by (auto simp: indexLine_def Let_def split: if_splits)
      then show ?thesis
        by (intro disjI2 exI [of _ "st\<lparr> ilineNumber := ilineNumber st + 1 \<rparr>"] exI [of _ st']
            exI [of _ "Some (recordOfParsed parsed)"]) simp
    qed
  qed
qed

lemma indexLoop_preserves:
  assumes step: "\<And>s rcd s'. finalizeRecordIdx F cb ca s rcd = Inr s' \<Longrightarrow> Q (iwin s) \<Longrightarrow> Q (iwin s')"
    and init: "Q (iwin st)"
  shows "\<exists>w. Q w \<and> emitted (indexLoop J F cb ca path st input) = printerCalls w"
  using init
proof (induction input arbitrary: st)
  case Nil
  then show ?case by (auto simp: indexDone_def)
next
  case (Cons line rest)
  show ?case
  proof (cases "indexLine J F cb ca path st line")
    case (Inl e)
    then show ?thesis using Cons.prems by (auto simp: indexFailed_def)
  next
    case (Inr s')
    from indexLine_iwin [OF Inr] have "Q (iwin s')"
      using Cons.prems step by (metis (full_types))
    from Cons.IH [OF this] show ?thesis using Inr by simp
  qed
qed

lemma processFile_distinctInv:
  "\<exists>w. distinctInv w \<and> emitted (processFile P F cb ca wi env S input) = printerCalls w"
  unfolding processFile_def
  by (rule fileLoop_preserves [where Q = distinctInv])
     (simp_all add: finalizeRecord_distinctInv initialWindow_distinctInv)

lemma processIndex_distinctInv:
  "\<exists>w. distinctInv w \<and> emitted (processIndex J F cb ca path input) = printerCalls w"
  unfolding processIndex_def
  by (rule indexLoop_preserves [where Q = distinctInv])
     (simp_all add: finalizeRecordIdx_distinctInv initialWindow_distinctInv)

lemma processFile_roleInv:
  "\<exists>w. roleInv F w \<and> emitted (processFile P F cb ca wi env S input) = printerCalls w"
  unfolding processFile_def
  by (rule fileLoop_preserves [where Q = "roleInv F"])
     (simp_all add: finalizeRecord_roleInv initialWindow_roleInv)

lemma processIndex_roleInv:
  "\<exists>w. roleInv F w \<and> emitted (processIndex J F cb ca path input) = printerCalls w"
  unfolding processIndex_def
  by (rule indexLoop_preserves [where Q = "roleInv F"])
     (simp_all add: finalizeRecordIdx_roleInv initialWindow_roleInv)

section \<open>Emission: once per record, matches as matches\<close>

text \<open>
  C3. In every run, on the raw-scan path and on the index path, the printer is called
  at most once for each sequence number: the \<open>index\<close> values of the printer calls are
  pairwise different, however many roles a record qualifies for.
\<close>

theorem printed_at_most_once:
  "distinct (map (\<lambda>c. index (snd c)) (emitted (processFile P F cb ca wi env S input))) \<and>
   distinct (map (\<lambda>c. index (snd c)) (emitted (processIndex J F cb ca path idx)))"
proof
  from processFile_distinctInv [of P F cb ca wi env S input]
  show "distinct (map (\<lambda>c. index (snd c)) (emitted (processFile P F cb ca wi env S input)))"
    by (auto simp: distinctInv_def seqOf_def [abs_def])
  from processIndex_distinctInv [of J F cb ca path idx]
  show "distinct (map (\<lambda>c. index (snd c)) (emitted (processIndex J F cb ca path idx)))"
    by (auto simp: distinctInv_def seqOf_def [abs_def])
qed

text \<open>
  C4. In every run, a record that satisfies the filter is printed with role
  \<open>Match\<close> only: no printer call hands over an accepted record as before-context or
  after-context, also when the record lies in the window of another match.
\<close>

theorem match_role_precedence:
  assumes "c \<in> set (emitted (processFile P F cb ca wi env S input)) \<or>
           c \<in> set (emitted (processIndex J F cb ca path idx))"
    and "createFilter F (snd c) getText = Inr True"
  shows "fst c = Match"
proof -
  from processFile_roleInv [of F P cb ca wi env S input]
       processIndex_roleInv [of F J cb ca path idx] assms
  show ?thesis unfolding roleInv_def by metis
qed

section \<open>The raw-scan path as a pass over assembled records\<close>

lemma serialize_marked [simp]:
  "serializeRecordForIndex (marked m w r) = serializeRecordForIndex r"
  by (simp add: marked_def serializeRecordForIndex_def)

lemma finalizeRecord_next:
  "finalizeRecord F cb ca S st (Some r) =
     (case createFilter F (finalized (Suc (recordIndex (fwin st))) r) getText of
        Inl e \<Rightarrow> Inl e
      | Inr m \<Rightarrow>
          Inr (st\<lparr> fwin := nextWindow cb ca m (fwin st) r,
                    indexStream := nextIndex S (Suc (recordIndex (fwin st))) r (indexStream st) \<rparr>))"
  by (simp add: finalizeRecord_Some nextWindow_def nextIndex_def windowStep_snd
      split: sum.splits option.splits)

lemma finalizeRecord_None [simp]: "finalizeRecord F cb ca S st None = Inr st"
  by (simp add: finalizeRecord_def)

lemma finalizeAll_Cons:
  "finalizeAll F cb ca S w ix (r # rs) =
     (case createFilter F (finalized (Suc (recordIndex w)) r) getText of
        Inl e \<Rightarrow> \<lparr> emitted = printerCalls w, indexFile = ix, outcome = Inl e \<rparr>
      | Inr m \<Rightarrow>
          finalizeAll F cb ca S (nextWindow cb ca m w r) (nextIndex S (Suc (recordIndex w)) r ix) rs)"
  by (simp add: finalizeRecord_next split: sum.splits)

lemma fileLoop_assemble:
  "fileLoop P F cb ca S st input =
     finalizeAll F cb ca S (fwin st) (indexStream st)
       (assemble P (current st) (lineNumber st) input)"
proof (induction input arbitrary: st)
  case Nil
  show ?case
  proof (cases "current st")
    case None
    then show ?thesis by (simp add: fileDone_def)
  next
    case (Some r)
    then show ?thesis
      by (simp add: finalizeRecord_next finalizeAll_Cons fileDone_def fileFailed_def
          split: sum.splits)
  qed
next
  case (Cons line rest)
  show ?case
  proof (cases "isStart P line")
    case start: True
    show ?thesis
    proof (cases "current st")
      case None
      with start show ?thesis
        by (simp add: fileLine_def Let_def Cons.IH)
    next
      case (Some r)
      with start show ?thesis
        by (simp add: fileLine_def Let_def Cons.IH finalizeRecord_next finalizeAll_Cons
            fileFailed_def split: sum.splits)
    qed
  next
    case False
    then show ?thesis
      by (cases "current st") (simp_all add: fileLine_def Let_def Cons.IH)
  qed
qed

lemma processFile_records:
  "processFile P F cb ca wi env S input =
     finalizeAll F cb ca S initialWindow
       (if writesIndex wi then Some [S (metaObject env)] else None) (records P input)"
  by (simp add: processFile_def fileLoop_assemble records_def)

lemma lines_createRecord [simp]: "lines (createRecord P line n) = [JStr line]"
  by (simp add: createRecord_def Let_def split_beta)

lemma lines_appendLine [simp]: "lines (appendLine c line n) = lines c @ [JStr line]"
  by (simp add: appendLine_def)


lemma lines_finalized [simp]: "lines (finalized n r) = lines r"
  by (simp add: finalized_def)



lemma length_numbered [simp]: "length (numbered n rs) = length rs"
  by (induction rs arbitrary: n) simp_all


lemma createFilter_finalized [simp]:
  "createFilter F (finalized n r) getText = createFilter F r getText"
  by (rule createFilter_cong) (simp_all add: finalized_def)

lemma createFilter_rawShaped:
  assumes "stringOrNull (level r)" "stringOrNull (thread r)"
  shows "\<exists>b. createFilter F r gt = Inr b"
proof -
  have "\<exists>b1. levelCheck F r = Inr b1"
    using assms(1)
    by (cases "level r"; cases "levelSet F"; auto simp: levelCheck_def stringOrNull_def)
  then obtain b1 where 1: "levelCheck F r = Inr b1" ..
  have "\<exists>b2. threadCheck F r = Inr b2"
    using assms(2)
    by (cases "thread r"; cases "threadNeedle F"; auto simp: threadCheck_def stringOrNull_def)
  then obtain b2 where 2: "threadCheck F r = Inr b2" ..
  show ?thesis
    unfolding createFilter_def 1 2 by (cases b1; cases b2; auto)
qed

lemma rawShaped_createRecord: "rawShaped (createRecord P line n)"
proof -
  have "stringOrNull (level (createRecord P line n)) \<and> stringOrNull (thread (createRecord P line n))"
    by (auto simp: createRecord_def Let_def split_beta stringOrNull_def split: option.splits)
  moreover have "\<not> printed (createRecord P line n) \<and> startLine (createRecord P line n) \<noteq> JNull \<and>
      endLine (createRecord P line n) \<noteq> JNull"
    by (simp add: createRecord_def Let_def split_beta)
  ultimately show ?thesis by (simp add: rawShaped_def)
qed

lemma rawShaped_appendLine: "rawShaped c \<Longrightarrow> rawShaped (appendLine c line n)"
  by (simp add: rawShaped_def appendLine_def)

lemma rawShaped_assemble:
  "(case cur of None \<Rightarrow> True | Some c \<Rightarrow> rawShaped c) \<Longrightarrow> list_all rawShaped (assemble P cur n input)"
  by (induction input arbitrary: cur n)
     (auto simp: rawShaped_createRecord rawShaped_appendLine split: option.splits)

lemma rawShaped_records: "list_all rawShaped (records P input)"
  by (simp add: records_def rawShaped_assemble)

lemma rawShaped_filter:
  "rawShaped r \<Longrightarrow> createFilter F r getText = Inr (createFilter F r getText = Inr True)"
  using createFilter_rawShaped [of r F getText] by (auto simp: rawShaped_def)

lemma nextWindow_recordIndex [simp]: "recordIndex (nextWindow cb ca m w r) = Suc (recordIndex w)"
  by (simp add: nextWindow_def windowStep_counters)

lemma nextWindow_totalRecords [simp]: "totalRecords (nextWindow cb ca m w r) = Suc (totalRecords w)"
  by (simp add: nextWindow_def windowStep_counters)

lemma feed_append: "feed F cb ca w (xs @ ys) = feed F cb ca (feed F cb ca w xs) ys"
  by (induction xs arbitrary: w) simp_all

lemma feed_recordIndex [simp]: "recordIndex (feed F cb ca w rs) = recordIndex w + length rs"
  by (induction rs arbitrary: w) simp_all

lemma feed_totalRecords [simp]: "totalRecords (feed F cb ca w rs) = totalRecords w + length rs"
  by (induction rs arbitrary: w) simp_all

lemma indexAfter_eq:
  "indexAfter S n ix rs =
     (case ix of None \<Rightarrow> None
      | Some written \<Rightarrow> Some (written @ map (\<lambda>r. S (serializeRecordForIndex r)) (numbered n rs)))"
  by (induction rs arbitrary: n ix) (auto simp: nextIndex_def split: option.splits)

lemma finalizeAll_feed:
  assumes "list_all rawShaped rs"
  shows "finalizeAll F cb ca S w ix rs =
           \<lparr> emitted = printerCalls (feed F cb ca w rs),
             indexFile = indexAfter S (recordIndex w) ix rs,
             outcome = Inr (totalRecords (feed F cb ca w rs), matchCount (feed F cb ca w rs)) \<rparr>"
  using assms
proof (induction rs arbitrary: w ix)
  case Nil
  then show ?case by simp
next
  case (Cons r rs)
  then have r: "rawShaped r" and rs: "list_all rawShaped rs" by simp_all
  from rawShaped_filter [OF r, of F]
  have flt: "createFilter F (finalized (Suc (recordIndex w)) r) getText =
               Inr (createFilter F (finalized (Suc (recordIndex w)) r) getText = Inr True)"
    by simp
  show ?case
    unfolding finalizeAll_Cons
    by (subst flt) (simp add: Cons.IH [OF rs])
qed

lemma processFile_feed:
  "processFile P F cb ca wi env S input =
     \<lparr> emitted = printerCalls (feed F cb ca initialWindow (records P input)),
       indexFile = (if writesIndex wi
                    then Some (S (metaObject env) #
                               map (\<lambda>r. S (serializeRecordForIndex r)) (finalizedRecords P input))
                    else None),
       outcome = Inr (length (records P input),
                      matchCount (feed F cb ca initialWindow (records P input))) \<rparr>"
  by (simp add: processFile_records finalizeAll_feed [OF rawShaped_records] indexAfter_eq
      finalizedRecords_def initialWindow_def)

section \<open>The index writer\<close>


section \<open>After-context restarts at every match\<close>

lemma flushCalls_bump [simp]: "flushCalls cb m (bump w) = flushCalls cb m w"
  by (simp add: flushCalls_def)

lemma ownCalls_bump [simp]: "ownCalls m (bump w) r = ownCalls m w r"
  by (simp add: ownCalls_def)

lemma marked_bump [simp]: "marked m (bump w) r = marked m w r"
  by (simp add: marked_def)

lemma printed_finalized [simp]: "printed (finalized n r) = printed r"
  by (simp add: finalized_def)

lemma nextWindow_calls:
  "printerCalls (nextWindow cb ca m w r) =
     printerCalls w @ flushCalls cb m w @ ownCalls m w (finalized (Suc (recordIndex w)) r)"
  by (simp add: nextWindow_def windowStep_calls)

lemma nextWindow_countdown:
  "afterCountdown (nextWindow cb ca m w r) = (if m then ca else afterCountdown w - 1)"
  by (simp add: nextWindow_def windowStep_countdown)

lemma nextWindow_buffer:
  "beforeBuffer (nextWindow cb ca m w r) =
     pushed cb (if m \<and> cb > 0 then map (\<lambda>c. c\<lparr>printed := True\<rparr>) (beforeBuffer w)
                else beforeBuffer w)
       (marked m w (finalized (Suc (recordIndex w)) r))"
  using windowStep_buffer [of cb ca m "bump w" "finalized (Suc (recordIndex w)) r"]
  by (simp add: nextWindow_def)

lemma flushFree_iff: "flushFree cb w \<longleftrightarrow> (cb > 0 \<longrightarrow> (\<forall>c \<in> set (beforeBuffer w). printed c))"
  by (auto simp: flushFree_def flushCalls_def filter_empty_conv)

lemma flushFree_pushed:
  assumes "cb > 0 \<longrightarrow> (\<forall>c \<in> set buf. printed c)" and "printed x"
    and "beforeBuffer w' = pushed cb buf x"
  shows "flushFree cb w'"
  unfolding flushFree_iff
proof (intro impI ballI)
  fix c assume "0 < cb" and "c \<in> set (beforeBuffer w')"
  then have "c \<in> set buf \<or> c = x"
    using assms(3) set_pushed [of cb buf x] by auto
  then show "printed c" using assms(1,2) \<open>0 < cb\<close> by auto
qed

lemma match_step:
  assumes "\<not> printed r"
  shows "printerCalls (nextWindow cb ca True w r) =
           printerCalls w @ flushCalls cb True w @ [(Match, finalized (Suc (recordIndex w)) r)]"
    and "afterCountdown (nextWindow cb ca True w r) = ca"
    and "flushFree cb (nextWindow cb ca True w r)"
proof -
  show "printerCalls (nextWindow cb ca True w r) =
           printerCalls w @ flushCalls cb True w @ [(Match, finalized (Suc (recordIndex w)) r)]"
    using assms by (simp add: nextWindow_calls ownCalls_def)
  show "afterCountdown (nextWindow cb ca True w r) = ca"
    by (simp add: nextWindow_countdown)
  show "flushFree cb (nextWindow cb ca True w r)"
  proof (rule flushFree_pushed)
    show "beforeBuffer (nextWindow cb ca True w r) =
            pushed cb (if True \<and> cb > 0 then map (\<lambda>c. c\<lparr>printed := True\<rparr>) (beforeBuffer w)
                       else beforeBuffer w)
              (marked True w (finalized (Suc (recordIndex w)) r))"
      by (rule nextWindow_buffer)
    show "printed (marked True w (finalized (Suc (recordIndex w)) r))"
      by (simp add: marked_def)
    show "cb > 0 \<longrightarrow> (\<forall>c \<in> set (if True \<and> cb > 0
              then map (\<lambda>c. c\<lparr>printed := True\<rparr>) (beforeBuffer w) else beforeBuffer w). printed c)"
      by auto
  qed
qed

lemma after_step:
  assumes "\<not> printed r" and "afterCountdown w > 0" and "flushFree cb w"
  shows "printerCalls (nextWindow cb ca False w r) =
           printerCalls w @ [(ContextAfter, finalized (Suc (recordIndex w)) r)]"
    and "afterCountdown (nextWindow cb ca False w r) = afterCountdown w - 1"
    and "flushFree cb (nextWindow cb ca False w r)"
proof -
  show "printerCalls (nextWindow cb ca False w r) =
           printerCalls w @ [(ContextAfter, finalized (Suc (recordIndex w)) r)]"
    using assms(1,2) by (simp add: nextWindow_calls ownCalls_def flushCalls_def)
  show "afterCountdown (nextWindow cb ca False w r) = afterCountdown w - 1"
    by (simp add: nextWindow_countdown)
  show "flushFree cb (nextWindow cb ca False w r)"
  proof (rule flushFree_pushed)
    show "beforeBuffer (nextWindow cb ca False w r) =
            pushed cb (if False \<and> cb > 0 then map (\<lambda>c. c\<lparr>printed := True\<rparr>) (beforeBuffer w)
                       else beforeBuffer w)
              (marked False w (finalized (Suc (recordIndex w)) r))"
      by (rule nextWindow_buffer)
    show "printed (marked False w (finalized (Suc (recordIndex w)) r))"
      using assms(2) by (simp add: marked_def)
    show "cb > 0 \<longrightarrow> (\<forall>c \<in> set (if False \<and> cb > 0
              then map (\<lambda>c. c\<lparr>printed := True\<rparr>) (beforeBuffer w) else beforeBuffer w). printed c)"
      using assms(3) by (simp add: flushFree_iff)
  qed
qed

lemma feed_after_context:
  assumes "\<forall>r \<in> set mid. createFilter F r getText = Inr False \<and> \<not> printed r"
    and "length mid \<le> afterCountdown w" and "flushFree cb w"
  shows "printerCalls (feed F cb ca w mid) =
           printerCalls w @ map (Pair ContextAfter) (numbered (recordIndex w) mid) \<and>
         flushFree cb (feed F cb ca w mid)"
  using assms
proof (induction mid arbitrary: w)
  case Nil
  then show ?case by simp
next
  case (Cons r mid)
  let ?w' = "nextWindow cb ca False w r"
  from Cons.prems have np: "\<not> printed r" and nm: "createFilter F r getText = Inr False"
    and pos: "afterCountdown w > 0" by auto
  note st = after_step [OF np pos Cons.prems(3), of ca]
  have "length mid \<le> afterCountdown ?w'"
    using Cons.prems(2) st(2) by simp
  with Cons.IH [of ?w'] Cons.prems(1) st(3)
  have "printerCalls (feed F cb ca ?w' mid) =
           printerCalls ?w' @ map (Pair ContextAfter) (numbered (recordIndex ?w') mid) \<and>
         flushFree cb (feed F cb ca ?w' mid)"
    by simp
  then show ?case
    using nm st(1) by simp
qed

lemma feed_calls_prefix: "\<exists>ext. printerCalls (feed F cb ca w rs) = printerCalls w @ ext"
proof (induction rs arbitrary: w)
  case Nil
  then show ?case by simp
next
  case (Cons r rs)
  let ?w' = "nextWindow cb ca (createFilter F (finalized (Suc (recordIndex w)) r) getText = Inr True) w r"
  from Cons.IH [of ?w'] obtain ext where "printerCalls (feed F cb ca ?w' rs) = printerCalls ?w' @ ext"
    by blast
  then show ?case
    by (simp add: nextWindow_calls)
qed

text \<open>
  C5. A matching record resets the after-context countdown to the configured count.
  Hence, when the assembled records hold two matches \<open>m1\<close> and \<open>m2\<close> with fewer
  non-matching records between them than the after-context count, the printer calls
  hold, side by side, the first match, every record between the two as after-context
  in order, and the second match: no gap; and since sequence numbers are printed at
  most once, no record of the stretch is printed again anywhere.
\<close>

theorem after_context_restart:
  assumes recs: "records P input = pre @ [m1] @ mid @ [m2] @ post"
    and m1: "createFilter F m1 getText = Inr True"
    and m2: "createFilter F m2 getText = Inr True"
    and mid: "\<forall>r \<in> set mid. createFilter F r getText = Inr False"
    and near: "length mid < ca"
  shows "(\<forall>st r st'. finalizeRecord F cb ca S st (Some r) = Inr st' \<longrightarrow>
            createFilter F (finalized (Suc (recordIndex (fwin st))) r) getText = Inr True \<longrightarrow>
            afterCountdown (fwin st') = ca) \<and>
         (\<exists>us vs. emitted (processFile P F cb ca wi env S input) =
            us @ [(Match, finalized (length pre + 1) m1)] @
            map (Pair ContextAfter) (numbered (length pre + 1) mid) @
            [(Match, finalized (length pre + length mid + 2) m2)] @ vs \<and>
            distinct (map (\<lambda>c. index (snd c)) (emitted (processFile P F cb ca wi env S input))))"
proof
  show "\<forall>st r st'. finalizeRecord F cb ca S st (Some r) = Inr st' \<longrightarrow>
            createFilter F (finalized (Suc (recordIndex (fwin st))) r) getText = Inr True \<longrightarrow>
            afterCountdown (fwin st') = ca"
    by (auto simp: finalizeRecord_next nextWindow_countdown)
next
  let ?w0 = "initialWindow"
  let ?w1 = "feed F cb ca ?w0 pre"
  let ?w2 = "nextWindow cb ca True ?w1 m1"
  let ?w3 = "feed F cb ca ?w2 mid"
  let ?w4 = "nextWindow cb ca True ?w3 m2"
  from rawShaped_records [of P input] recs
  have un: "\<not> printed m1" "\<not> printed m2" "\<forall>r \<in> set mid. \<not> printed r"
    by (auto simp: rawShaped_def list_all_iff)
  have i1: "recordIndex ?w1 = length pre"
    by (simp add: initialWindow_def)
  note s1 = match_step [OF un(1), of cb ca ?w1]
  have fa: "printerCalls ?w3 = printerCalls ?w2 @ map (Pair ContextAfter) (numbered (recordIndex ?w2) mid) \<and>
            flushFree cb ?w3"
    using mid un(3) near s1(2,3) by (intro feed_after_context) auto
  note s2 = match_step [OF un(2), of cb ca ?w3]
  have nf: "flushCalls cb True ?w3 = []"
    using fa by (simp add: flushFree_def)
  have feed_all: "feed F cb ca ?w0 (records P input) = feed F cb ca ?w4 post"
    unfolding recs by (simp add: feed_append m1 m2 i1)
  obtain vs where vs: "printerCalls (feed F cb ca ?w4 post) = printerCalls ?w4 @ vs"
    using feed_calls_prefix by blast
  have em: "emitted (processFile P F cb ca wi env S input) = printerCalls ?w4 @ vs"
    by (simp add: processFile_feed feed_all vs)
  have "printerCalls ?w4 =
          (printerCalls ?w1 @ flushCalls cb True ?w1) @ [(Match, finalized (length pre + 1) m1)] @
            map (Pair ContextAfter) (numbered (length pre + 1) mid) @
            [(Match, finalized (length pre + length mid + 2) m2)]"
    using s1(1) s2(1) fa nf i1 by simp
  with em have "emitted (processFile P F cb ca wi env S input) =
          (printerCalls ?w1 @ flushCalls cb True ?w1) @ [(Match, finalized (length pre + 1) m1)] @
            map (Pair ContextAfter) (numbered (length pre + 1) mid) @
            [(Match, finalized (length pre + length mid + 2) m2)] @ vs"
    by simp
  moreover have "distinct (map (\<lambda>c. index (snd c)) (emitted (processFile P F cb ca wi env S input)))"
    using processFile_distinctInv [of P F cb ca wi env S input]
    by (auto simp: distinctInv_def seqOf_def [abs_def])
  ultimately show "\<exists>us vs. emitted (processFile P F cb ca wi env S input) =
            us @ [(Match, finalized (length pre + 1) m1)] @
            map (Pair ContextAfter) (numbered (length pre + 1) mid) @
            [(Match, finalized (length pre + length mid + 2) m2)] @ vs \<and>
            distinct (map (\<lambda>c. index (snd c)) (emitted (processFile P F cb ca wi env S input)))"
    by blast
qed


lemma startsWith_iff: "startsWith s p \<longleftrightarrow> (\<exists>v. s = p @ v)"
  by (induction s p rule: startsWith.induct) auto



lemma indexOf_Some:
  assumes "indexOf s p = Some i"
  shows "s = take i s @ p @ drop (i + length p) s \<and> i \<le> length s"
  using assms
proof (induction s arbitrary: i)
  case Nil
  then show ?case by (auto split: if_splits)
next
  case (Cons x xs)
  show ?case
  proof (cases "startsWith (x # xs) p")
    case True
    with Cons.prems have "i = 0" by simp
    moreover from True obtain v where "x # xs = p @ v" by (auto simp: startsWith_iff)
    ultimately show ?thesis by (metis append_Nil append_eq_conv_conj add_0 le0 take_0)
  next
    case False
    with Cons.prems obtain j where j: "indexOf xs p = Some j" "i = Suc j" by auto
    from Cons.IH [OF j(1)] show ?thesis using j(2) by simp
  qed
qed


section \<open>Location and message of a header line\<close>



lemma trim_Nil [simp]: "trim [] = []"
  by (simp add: trim_def)





section \<open>The index reader\<close>

lemma finalizeRecordIdx_frame:
  "finalizeRecordIdx F cb ca (st\<lparr>ilineNumber := k\<rparr>) (Some r) =
     (case finalizeRecordIdx F cb ca st (Some r) of
        Inl e \<Rightarrow> Inl e
      | Inr st' \<Rightarrow> Inr (st'\<lparr>ilineNumber := k\<rparr>))"
  by (simp add: finalizeRecordIdx_Some split: sum.splits)


lemma indexLine_empty:
  "indexLine J F cb ca path st [] = Inr (st\<lparr>ilineNumber := ilineNumber st + 1\<rparr>)"
  by (simp add: indexLine_def)



lemma indexLine_shift:
  "(\<exists>st'. indexLine J F cb ca path st line = Inr st' \<and>
          indexLine J F cb ca path (st\<lparr>ilineNumber := k\<rparr>) line = Inr (st'\<lparr>ilineNumber := k + 1\<rparr>)) \<or>
   (\<exists>e e'. indexLine J F cb ca path st line = Inl e \<and>
          indexLine J F cb ca path (st\<lparr>ilineNumber := k\<rparr>) line = Inl e')"
proof (cases "line = []")
  case True
  then show ?thesis by (simp add: indexLine_def)
next
  case False
  show ?thesis
  proof (cases "J line")
    case None
    with False show ?thesis by (simp add: indexLine_def)
  next
    case (Some parsed)
    show ?thesis
    proof (cases "truthy parsed \<and> getProp parsed ''type'' = Some (JStr ''meta'')")
      case True
      with False Some show ?thesis by (simp add: indexLine_def)
    next
      case nm: False
      show ?thesis
      proof (cases "parsed = JNull")
        case True
        with False Some show ?thesis by (simp add: indexLine_def)
      next
        case nn: False
        have a: "indexLine J F cb ca path st line =
                   finalizeRecordIdx F cb ca (st\<lparr>ilineNumber := ilineNumber st + 1\<rparr>)
                     (Some (recordOfParsed parsed))"
          using False Some nm nn by (auto simp: indexLine_def Let_def)
        have b: "indexLine J F cb ca path (st\<lparr>ilineNumber := k\<rparr>) line =
                   finalizeRecordIdx F cb ca (st\<lparr>ilineNumber := k + 1\<rparr>)
                     (Some (recordOfParsed parsed))"
          using False Some nm nn by (auto simp: indexLine_def Let_def)
        show ?thesis
          unfolding a b finalizeRecordIdx_frame
          by (cases "finalizeRecordIdx F cb ca st (Some (recordOfParsed parsed))") simp_all
      qed
    qed
  qed
qed

lemma indexLoop_shift:
  "emitted (indexLoop J F cb ca path (st\<lparr>ilineNumber := k\<rparr>) ls) =
     emitted (indexLoop J F cb ca path st ls) \<and>
   (\<forall>t. (outcome (indexLoop J F cb ca path (st\<lparr>ilineNumber := k\<rparr>) ls) = Inr t) =
        (outcome (indexLoop J F cb ca path st ls) = Inr t))"
proof (induction ls arbitrary: st k)
  case Nil
  then show ?case by (simp add: indexDone_def)
next
  case (Cons l ls)
  from indexLine_shift [where st = st and k = k and line = l and J = J
          and F = F and cb = cb and ca = ca and path = path] show ?case
  proof (elim disjE exE conjE)
    fix st' assume a: "indexLine J F cb ca path st l = Inr st'"
      and b: "indexLine J F cb ca path (st\<lparr>ilineNumber := k\<rparr>) l = Inr (st'\<lparr>ilineNumber := k + 1\<rparr>)"
    show ?thesis using Cons.IH [where st = st' and k = "k + 1"] by (simp add: a b)
  next
    fix e e' assume a: "indexLine J F cb ca path st l = Inl e"
      and b: "indexLine J F cb ca path (st\<lparr>ilineNumber := k\<rparr>) l = Inl e'"
    show ?thesis by (simp add: a b indexFailed_def)
  qed
qed

lemma indexLoop_skip_empty:
  "emitted (indexLoop J F cb ca path st ls) =
     emitted (indexLoop J F cb ca path st (filter (\<lambda>l. l \<noteq> []) ls)) \<and>
   (\<forall>t. (outcome (indexLoop J F cb ca path st ls) = Inr t) =
        (outcome (indexLoop J F cb ca path st (filter (\<lambda>l. l \<noteq> []) ls)) = Inr t))"
proof (induction ls arbitrary: st)
  case Nil
  then show ?case by simp
next
  case (Cons l ls)
  show ?case
  proof (cases "l = []")
    case True
    then show ?thesis
      using indexLoop_shift [where st = st and k = "ilineNumber st + 1" and ls = ls and J = J
          and F = F and cb = cb and ca = ca and path = path] Cons.IH [where st = st]
      by (simp add: indexLine_empty)
  next
    case False
    then show ?thesis
      using Cons.IH by (cases "indexLine J F cb ca path st l") simp_all
  qed
qed

text \<open>
  C10. The index reader skips every empty line silently: the step for an empty line
  only counts the line, so it builds no record, leaves the record sequence where it
  was and raises no error, whatever \<^verbatim>\<open>JSON.parse\<close> would say of the empty string. A
  run over an index file therefore makes the printer calls of the run over the file
  without its empty lines, and returns the same counts when either returns.
\<close>

theorem empty_index_lines_skipped:
  "indexLine J F cb ca path st [] = Inr (st\<lparr>ilineNumber := ilineNumber st + 1\<rparr>) \<and>
   emitted (processIndex J F cb ca path idx) =
     emitted (processIndex J F cb ca path (filter (\<lambda>l. l \<noteq> []) idx)) \<and>
   (\<forall>t. (outcome (processIndex J F cb ca path idx) = Inr t) =
        (outcome (processIndex J F cb ca path (filter (\<lambda>l. l \<noteq> []) idx)) = Inr t))"
  using indexLoop_skip_empty [where ls = idx and J = J and F = F and cb = cb and ca = ca
      and path = path and st = "\<lparr> iwin = initialWindow, meta = None, ilineNumber = 0 \<rparr>"]
  by (simp add: indexLine_empty processIndex_def)




section \<open>Parity of the raw scan and the index\<close>

lemma nullish_Some_null [simp]: "nullish (Some x) JNull = x"
  by (cases x) simp_all

lemma nullish_Some [simp]: "x \<noteq> JNull \<Longrightarrow> nullish (Some x) d = x"
  by (cases x) simp_all

lemma nullish_idem [simp]: "nullish (Some (nullish (Some x) d)) d = nullish (Some x) d"
  by (cases x) (simp_all, cases d, simp_all)

lemma getProp_serialize:
  "getProp (serializeRecordForIndex r) ''type'' = None"
  "getProp (serializeRecordForIndex r) ''time'' = None"
  "getProp (serializeRecordForIndex r) ''messageLines'' = None"
  "getProp (serializeRecordForIndex r) ''index'' = Some (index r)"
  "getProp (serializeRecordForIndex r) ''startLine'' = Some (startLine r)"
  "getProp (serializeRecordForIndex r) ''endLine'' = Some (endLine r)"
  "getProp (serializeRecordForIndex r) ''timestampRaw'' = Some (timestampRaw r)"
  "getProp (serializeRecordForIndex r) ''timestampMs'' =
     Some (case timestampMs r of Some ms \<Rightarrow> JNum ms | None \<Rightarrow> JNull)"
  "getProp (serializeRecordForIndex r) ''level'' = Some (level r)"
  "getProp (serializeRecordForIndex r) ''pid'' = Some (pid r)"
  "getProp (serializeRecordForIndex r) ''thread'' = Some (thread r)"
  "getProp (serializeRecordForIndex r) ''location'' = Some (location r)"
  "getProp (serializeRecordForIndex r) ''message'' = Some (nullish (Some (message r)) (JStr []))"
  "getProp (serializeRecordForIndex r) ''lines'' = Some (JArr (lines r))"
  by (simp_all add: serializeRecordForIndex_def)

lemma reread_fields:
  "index (reread r) = nullish (Some (index r)) (JNum 0)"
  "startLine (reread r) = nullish (Some (startLine r)) (JNum 0)"
  "endLine (reread r) = nullish (Some (endLine r)) (nullish (Some (startLine r)) (JNum 0))"
  "timestampRaw (reread r) = timestampRaw r"
  "timestampMs (reread r) = timestampMs r"
  "level (reread r) = level r"
  "pid (reread r) = pid r"
  "thread (reread r) = thread r"
  "location (reread r) = location r"
  "message (reread r) = nullish (Some (message r)) (JStr [])"
  "lines (reread r) = lines r"
  "printed (reread r) = printed r"
  by (simp_all add: reread_def recordOfParsed_def getProp_serialize split: option.splits)

lemma reread_printed_update: "reread (r\<lparr>printed := b\<rparr>) = (reread r)\<lparr>printed := b\<rparr>"
  by (simp add: reread_def serializeRecordForIndex_def)

lemma createFilter_reread: "createFilter F (reread r) getText = createFilter F r getText"
  by (rule createFilter_cong) (simp_all add: reread_fields)

lemma serialize_reread: "stable r \<Longrightarrow> serializeRecordForIndex (reread r) = serializeRecordForIndex r"
  by (simp add: serializeRecordForIndex_def reread_fields stable_def)

lemma payload_reread: "stable r \<Longrightarrow> payload (reread r) ro = payload r ro"
  by (simp add: payload_def reread_fields stable_def)

lemma createPrinter_reread:
  "stable r \<Longrightarrow> createPrinter S jo (reread r) ro = createPrinter S jo r ro"
  by (simp add: createPrinter_def payload_reread reread_fields)

lemma mapWindow_fields [simp]:
  "beforeBuffer (mapWindow f w) = map f (beforeBuffer w)"
  "printerCalls (mapWindow f w) = map (apsnd f) (printerCalls w)"
  "afterCountdown (mapWindow f w) = afterCountdown w"
  "recordIndex (mapWindow f w) = recordIndex w"
  "totalRecords (mapWindow f w) = totalRecords w"
  "matchCount (mapWindow f w) = matchCount w"
  by (simp_all add: mapWindow_def)

lemma mapWindow_bump: "bump (mapWindow f w) = mapWindow f (bump w)"
  by (simp add: mapWindow_def bump_def)

lemma pushed_map: "pushed cb (map f buf) (f x) = map f (pushed cb buf x)"
  by (simp add: pushed_def map_tl)

lemma windowStep_map:
  assumes pf: "\<And>x. printed (f x) = printed x"
    and up: "\<And>x. f (x\<lparr>printed := True\<rparr>) = (f x)\<lparr>printed := True\<rparr>"
  shows "fst (windowStep cb ca m (mapWindow f w) (f r)) = mapWindow f (fst (windowStep cb ca m w r))"
proof (rule window.equality)
  have mk: "marked m (mapWindow f w) (f r) = f (marked m w r)"
    by (simp add: marked_def pf up)
  have fl: "filter (\<lambda>c. \<not> printed c) (map f (beforeBuffer w)) =
            map f (filter (\<lambda>c. \<not> printed c) (beforeBuffer w))"
    by (simp add: filter_map comp_def pf)
  show "beforeBuffer (fst (windowStep cb ca m (mapWindow f w) (f r))) =
        beforeBuffer (mapWindow f (fst (windowStep cb ca m w r)))"
    by (simp add: windowStep_buffer mk pushed_map [symmetric] up comp_def)
  show "printerCalls (fst (windowStep cb ca m (mapWindow f w) (f r))) =
        printerCalls (mapWindow f (fst (windowStep cb ca m w r)))"
    by (simp add: windowStep_calls flushCalls_def ownCalls_def fl pf comp_def)
  show "afterCountdown (fst (windowStep cb ca m (mapWindow f w) (f r))) =
        afterCountdown (mapWindow f (fst (windowStep cb ca m w r)))"
    by (simp add: windowStep_countdown)
  show "recordIndex (fst (windowStep cb ca m (mapWindow f w) (f r))) =
        recordIndex (mapWindow f (fst (windowStep cb ca m w r)))"
    by (simp add: windowStep_counters)
  show "totalRecords (fst (windowStep cb ca m (mapWindow f w) (f r))) =
        totalRecords (mapWindow f (fst (windowStep cb ca m w r)))"
    by (simp add: windowStep_counters)
  show "matchCount (fst (windowStep cb ca m (mapWindow f w) (f r))) =
        matchCount (mapWindow f (fst (windowStep cb ca m w r)))"
    by (simp add: windowStep_counters)
  show "window.more (fst (windowStep cb ca m (mapWindow f w) (f r))) =
        window.more (mapWindow f (fst (windowStep cb ca m w r)))"
    by simp
qed

lemma windowStep_reread:
  "fst (windowStep cb ca m (bump (mapWindow reread w)) (reread r)) =
     mapWindow reread (fst (windowStep cb ca m (bump w) r))"
  unfolding mapWindow_bump
  by (rule windowStep_map) (simp_all add: reread_fields reread_printed_update)

lemma update_same: "printed x = b \<Longrightarrow> index x = i \<Longrightarrow> x\<lparr>printed := b, index := i\<rparr> = x"
  by (cases x) simp

lemma reread_finalized:
  assumes "\<not> printed r"
  shows "(recordOfParsed (serializeRecordForIndex (finalized n r)))\<lparr>index := JNum (int n)\<rparr> =
           reread (finalized n r)"
proof -
  have "index (reread (finalized n r)) = JNum (int n)"
    by (simp add: reread_fields)
  then have "(reread (finalized n r))\<lparr>index := JNum (int n)\<rparr> = reread (finalized n r)"
    by (cases "reread (finalized n r)") simp
  moreover have "reread (finalized n r) = recordOfParsed (serializeRecordForIndex (finalized n r))"
    using assms by (simp add: reread_def recordOfParsed_def)
  ultimately show ?thesis by simp
qed

lemma serialize_not_null: "serializeRecordForIndex r \<noteq> JNull"
  by (simp add: serializeRecordForIndex_def)

lemma indexLine_record:
  assumes line: "S (serializeRecordForIndex (finalized (Suc (recordIndex w)) r)) \<noteq> []"
    and parse: "J (S (serializeRecordForIndex (finalized (Suc (recordIndex w)) r))) =
                  Some (serializeRecordForIndex (finalized (Suc (recordIndex w)) r))"
    and raw: "rawShaped r"
    and win: "iwin st = mapWindow reread w"
  shows "indexLine J F cb ca path st (S (serializeRecordForIndex (finalized (Suc (recordIndex w)) r))) =
           Inr (st\<lparr> ilineNumber := ilineNumber st + 1,
                     iwin := mapWindow reread
                       (nextWindow cb ca (createFilter F r getText = Inr True) w r) \<rparr>)"
proof -
  let ?R = "finalized (Suc (recordIndex w)) r"
  let ?st1 = "st\<lparr>ilineNumber := ilineNumber st + 1\<rparr>"
  let ?m = "createFilter F r getText = Inr True"
  from raw have np: "\<not> printed r" by (simp add: rawShaped_def)
  have nm: "\<not> (truthy (serializeRecordForIndex ?R) \<and>
              getProp (serializeRecordForIndex ?R) ''type'' = Some (JStr ''meta''))"
    by (simp add: getProp_serialize)
  have step: "indexLine J F cb ca path st (S (serializeRecordForIndex ?R)) =
                finalizeRecordIdx F cb ca ?st1 (Some (recordOfParsed (serializeRecordForIndex ?R)))"
    using line parse serialize_not_null [of ?R]
    by (simp add: indexLine_def Let_def getProp_serialize)
  have ri: "recordIndex (bump (iwin ?st1)) = Suc (recordIndex w)"
    by (simp add: win)
  have rec: "(recordOfParsed (serializeRecordForIndex ?R))\<lparr>index := JNum (int (recordIndex (bump (iwin ?st1))))\<rparr> =
               reread ?R"
    unfolding ri by (rule reread_finalized [OF np])
  have flt: "createFilter F (reread ?R) getTextIdx = Inr ?m"
    using rawShaped_filter [OF raw, of F] by (simp add: getTextIdx_eq createFilter_reread)
  have "finalizeRecordIdx F cb ca ?st1 (Some (recordOfParsed (serializeRecordForIndex ?R))) =
          Inr (?st1\<lparr> iwin := fst (windowStep cb ca ?m (bump (iwin ?st1)) (reread ?R)) \<rparr>)"
    unfolding finalizeRecordIdx_Some rec flt by simp
  also have "fst (windowStep cb ca ?m (bump (iwin ?st1)) (reread ?R)) =
               mapWindow reread (nextWindow cb ca ?m w r)"
    by (simp add: win windowStep_reread nextWindow_def)
  finally show ?thesis
    unfolding step by simp
qed

lemma indexLoop_feed:
  assumes "list_all rawShaped rs"
    and "\<forall>r \<in> set (numbered (recordIndex w) rs).
           S (serializeRecordForIndex r) \<noteq> [] \<and>
           J (S (serializeRecordForIndex r)) = Some (serializeRecordForIndex r)"
    and "iwin st = mapWindow reread w"
  shows "indexLoop J F cb ca path st
           (map (\<lambda>r. S (serializeRecordForIndex r)) (numbered (recordIndex w) rs)) =
         \<lparr> emitted = map (apsnd reread) (printerCalls (feed F cb ca w rs)),
           indexFile = None,
           outcome = Inr (totalRecords (feed F cb ca w rs), matchCount (feed F cb ca w rs)) \<rparr>"
  using assms
proof (induction rs arbitrary: w st)
  case Nil
  then show ?case by (simp add: indexDone_def)
next
  case (Cons r rs)
  let ?R = "finalized (Suc (recordIndex w)) r"
  let ?m = "createFilter F r getText = Inr True"
  let ?w' = "nextWindow cb ca ?m w r"
  let ?st' = "st\<lparr> ilineNumber := ilineNumber st + 1, iwin := mapWindow reread ?w' \<rparr>"
  from Cons.prems have raw: "rawShaped r" and raws: "list_all rawShaped rs" by simp_all
  from Cons.prems(2) have line: "S (serializeRecordForIndex ?R) \<noteq> []"
    and parse: "J (S (serializeRecordForIndex ?R)) = Some (serializeRecordForIndex ?R)"
    by simp_all
  have step: "indexLine J F cb ca path st (S (serializeRecordForIndex ?R)) = Inr ?st'"
    by (rule indexLine_record [where S = S and J = J and w = w and r = r,
          OF line parse raw Cons.prems(3)])
  have rest: "\<forall>x \<in> set (numbered (recordIndex ?w') rs).
           S (serializeRecordForIndex x) \<noteq> [] \<and>
           J (S (serializeRecordForIndex x)) = Some (serializeRecordForIndex x)"
    using Cons.prems(2) by simp
  have "iwin ?st' = mapWindow reread ?w'" by simp
  from Cons.IH [OF raws rest this] step show ?case
    by simp
qed

lemma stable_finalized: "rawShaped r \<Longrightarrow> stable (finalized n r)"
  by (simp add: stable_def rawShaped_def finalized_def)

lemma stable_marked: "stable (marked m w r) = stable r"
  by (simp add: stable_def marked_def)

lemma stable_printed_update [simp]: "stable (c\<lparr>printed := b\<rparr>) = stable c"
  by (simp add: stable_def)

lemma nextWindow_stable:
  assumes "stableWin w" and "rawShaped r"
  shows "stableWin (nextWindow cb ca m w r)"
proof -
  let ?R = "finalized (Suc (recordIndex w)) r"
  have sR: "stable ?R" by (rule stable_finalized [OF assms(2)])
  from assms(1) have c: "\<And>c. c \<in> set (printerCalls w) \<Longrightarrow> stable (snd c)"
    and b: "\<And>x. x \<in> set (beforeBuffer w) \<Longrightarrow> stable x"
    by (auto simp: stableWin_def)
  have A: "\<forall>c \<in> set (printerCalls (nextWindow cb ca m w r)). stable (snd c)"
    using c b sR by (auto simp: nextWindow_calls flushCalls_def ownCalls_def split: if_splits)
  have B: "\<forall>x \<in> set (beforeBuffer (nextWindow cb ca m w r)). stable x"
  proof
    fix x assume "x \<in> set (beforeBuffer (nextWindow cb ca m w r))"
    then have "x \<in> set (if m \<and> cb > 0 then map (\<lambda>c. c\<lparr>printed := True\<rparr>) (beforeBuffer w)
                else beforeBuffer w) \<or> x = marked m w ?R"
      unfolding nextWindow_buffer using set_pushed by fastforce
    then show "stable x"
      using b sR by (auto simp: stable_marked split: if_splits)
  qed
  from A B show ?thesis by (simp add: stableWin_def)
qed

lemma feed_stable: "stableWin w \<Longrightarrow> list_all rawShaped rs \<Longrightarrow> stableWin (feed F cb ca w rs)"
  by (induction rs arbitrary: w) (simp_all add: nextWindow_stable)

lemma initialWindow_stable: "stableWin initialWindow"
  by (simp add: stableWin_def initialWindow_def)

lemma view_reread: "stable (snd c) \<Longrightarrow> view (apsnd reread c) = view c"
  by (cases c) (simp add: view_def serialize_reread)

lemma indexLine_meta:
  assumes "S (metaObject env) \<noteq> []" and "J (S (metaObject env)) = Some (metaObject env)"
  shows "indexLine J F cb ca path st (S (metaObject env)) =
           Inr (st\<lparr> ilineNumber := ilineNumber st + 1, meta := Some (metaObject env) \<rparr>)"
proof -
  have "truthy (metaObject env)" "getProp (metaObject env) ''type'' = Some (JStr ''meta'')"
    by (simp_all add: metaObject_def)
  with assms show ?thesis
    by (simp add: indexLine_def Let_def)
qed

lemma processIndex_written:
  assumes wi: "writesIndex wi'"
    and meta: "S (metaObject env) \<noteq> [] \<and> J (S (metaObject env)) = Some (metaObject env)"
    and recs: "\<forall>r \<in> set (finalizedRecords P input).
                 S (serializeRecordForIndex r) \<noteq> [] \<and>
                 J (S (serializeRecordForIndex r)) = Some (serializeRecordForIndex r)"
  shows "processIndex J F cb ca path (writtenIndex (processFile P F cb ca wi' env S input)) =
           \<lparr> emitted = map (apsnd reread) (emitted (processFile P F cb ca wi env S input)),
             indexFile = None,
             outcome = outcome (processFile P F cb ca wi env S input) \<rparr>"
proof -
  let ?rs = "records P input"
  let ?st0 = "\<lparr> iwin = initialWindow, meta = None, ilineNumber = 0 \<rparr>"
  let ?st1 = "\<lparr> iwin = initialWindow, meta = Some (metaObject env), ilineNumber = Suc 0 \<rparr>"
  have idx: "writtenIndex (processFile P F cb ca wi' env S input) =
               S (metaObject env) # map (\<lambda>r. S (serializeRecordForIndex r)) (finalizedRecords P input)"
    using wi by (simp add: writtenIndex_def processFile_feed)
  have first: "indexLine J F cb ca path ?st0 (S (metaObject env)) = Inr ?st1"
    using meta indexLine_meta [of S env J F cb ca path ?st0] by simp
  have fr: "finalizedRecords P input = numbered (recordIndex initialWindow) ?rs"
    by (simp add: finalizedRecords_def initialWindow_def)
  have win: "iwin ?st1 = mapWindow reread initialWindow"
    by (simp add: mapWindow_def initialWindow_def)
  have loop: "indexLoop J F cb ca path ?st1
                (map (\<lambda>r. S (serializeRecordForIndex r)) (numbered (recordIndex initialWindow) ?rs)) =
              \<lparr> emitted = map (apsnd reread) (printerCalls (feed F cb ca initialWindow ?rs)),
                indexFile = None,
                outcome = Inr (totalRecords (feed F cb ca initialWindow ?rs),
                               matchCount (feed F cb ca initialWindow ?rs)) \<rparr>"
    using recs unfolding fr
    by (intro indexLoop_feed rawShaped_records win) simp
  have tot: "totalRecords (feed F cb ca initialWindow ?rs) = length ?rs"
    by (simp add: initialWindow_def)
  have t0: "totalRecords initialWindow = 0"
    by (simp add: initialWindow_def)
  show ?thesis
    unfolding processIndex_def idx fr
    by (simp add: first loop tot t0 processFile_feed)
qed

lemma reread_erased:
  "stable r \<Longrightarrow>
   (reread r)\<lparr>timestamp := None, messageLines := []\<rparr> = r\<lparr>timestamp := None, messageLines := []\<rparr>"
  by (rule logrec.equality) (simp_all add: reread_fields stable_def)

text \<open>
  C1. Take any source file and any filter and context arguments, and let a raw scan
  with index writing build the index. Provided \<^verbatim>\<open>JSON.parse\<close> gives back what
  \<^verbatim>\<open>JSON.stringify\<close> was given for the metadata object and for each finalized record, and
  the text written is not empty, reading that index with the same arguments makes
  the same sequence of printer calls as the raw scan (with or without index writing):
  the same roles and the same records in their persisted shape, hence the same
  printer output in both output modes, and the same returned counts. The record
  objects agree on every field but two that neither the filter nor the printer
  reads: the \<^verbatim>\<open>Date\<close> object and the message lines kept while a record is assembled.
\<close>

theorem index_parity:
  assumes "writesIndex wi'"
    and "S (metaObject env) \<noteq> [] \<and> J (S (metaObject env)) = Some (metaObject env)"
    and "\<forall>r \<in> set (finalizedRecords P input).
           S (serializeRecordForIndex r) \<noteq> [] \<and>
           J (S (serializeRecordForIndex r)) = Some (serializeRecordForIndex r)"
  shows "map view (emitted (processIndex J F cb ca path
                      (writtenIndex (processFile P F cb ca wi' env S input)))) =
           map view (emitted (processFile P F cb ca wi env S input)) \<and>
         (\<forall>S' jsonOutput.
            map (\<lambda>c. createPrinter S' jsonOutput (snd c) (fst c))
              (emitted (processIndex J F cb ca path
                      (writtenIndex (processFile P F cb ca wi' env S input)))) =
            map (\<lambda>c. createPrinter S' jsonOutput (snd c) (fst c))
              (emitted (processFile P F cb ca wi env S input))) \<and>
         outcome (processIndex J F cb ca path
                    (writtenIndex (processFile P F cb ca wi' env S input))) =
           outcome (processFile P F cb ca wi env S input) \<and>
         map (\<lambda>c. (fst c, (snd c)\<lparr>timestamp := None, messageLines := []\<rparr>))
           (emitted (processIndex J F cb ca path
                      (writtenIndex (processFile P F cb ca wi' env S input)))) =
           map (\<lambda>c. (fst c, (snd c)\<lparr>timestamp := None, messageLines := []\<rparr>))
             (emitted (processFile P F cb ca wi env S input))"
proof -
  have st: "\<forall>c \<in> set (emitted (processFile P F cb ca wi env S input)). stable (snd c)"
    using feed_stable [OF initialWindow_stable rawShaped_records, of F cb ca P input]
    by (simp add: processFile_feed stableWin_def)
  note pw = processIndex_written [OF assms, of F cb ca path wi]
  have v: "map view (map (apsnd reread) (emitted (processFile P F cb ca wi env S input))) =
           map view (emitted (processFile P F cb ca wi env S input))"
    using st by (simp add: view_reread)
  have p: "\<And>S' jo. map (\<lambda>c. createPrinter S' jo (snd c) (fst c))
              (map (apsnd reread) (emitted (processFile P F cb ca wi env S input))) =
            map (\<lambda>c. createPrinter S' jo (snd c) (fst c))
              (emitted (processFile P F cb ca wi env S input))"
    using st by (simp add: createPrinter_reread)
  have e: "map (\<lambda>c. (fst c, (snd c)\<lparr>timestamp := None, messageLines := []\<rparr>))
             (map (apsnd reread) (emitted (processFile P F cb ca wi env S input))) =
           map (\<lambda>c. (fst c, (snd c)\<lparr>timestamp := None, messageLines := []\<rparr>))
             (emitted (processFile P F cb ca wi env S input))"
    using st by (simp add: reread_erased)
  show ?thesis
    unfolding pw using v p e by simp
qed

section \<open>The properties on the sample log\<close>

theorem timestamp_absent_excluded_witness:
  "timestampMs (createRecord defaultParser ''Starting application'' 1) = None \<and>
   createFilter (sampleFilter\<lparr>fromMs := Some 0\<rparr>)
     (createRecord defaultParser ''Starting application'' 1) getText = Inr False"
proof -
  have h: "timestampMs (createRecord defaultParser ''Starting application'' 1) = None"
    by (simp add: createRecord_def defaultParser_def headerRegex_def timestampFallback_def
        parseTimestamp_def isDigit_def)
  have b: "fromMs (sampleFilter\<lparr>fromMs := Some 0\<rparr>) \<noteq> None \<or>
           toMs (sampleFilter\<lparr>fromMs := Some 0\<rparr>) \<noteq> None"
    by simp
  from h timestamp_absent_excluded [OF h b] show ?thesis by simp
qed

theorem printed_at_most_once_witness:
  "distinct (map (\<lambda>c. index (snd c))
     (emitted (processFile defaultParser sampleFilter 1 2 None sampleEnv jsonStringify sampleLog))) \<and>
   distinct (map (\<lambda>c. index (snd c))
     (emitted (processIndex jsonParse sampleFilter 1 2 ''app.idx''
        [jsonStringify (metaObject sampleEnv), [], ''{}'', ''{}''])))"
  by (rule printed_at_most_once)

theorem match_role_precedence_witness:
  "fst (emitted (processFile defaultParser sampleFilter 1 2 None sampleEnv jsonStringify
          (take 5 sampleLog)) ! 1) = Match"
proof -
  let ?run = "processFile defaultParser sampleFilter 1 2 None sampleEnv jsonStringify
                (take 5 sampleLog)"
  have len: "1 < length (emitted ?run)"
    by code_simp
  have acc: "createFilter sampleFilter (snd (emitted ?run ! 1)) getText = Inr True"
    by code_simp
  from len have "emitted ?run ! 1 \<in> set (emitted ?run)"
    by (rule nth_mem)
  then have "emitted ?run ! 1 \<in> set (emitted ?run) \<or>
             emitted ?run ! 1 \<in> set (emitted (processIndex jsonParse sampleFilter 1 2 [] []))"
    by (rule disjI1)
  from match_role_precedence [OF this acc] show ?thesis .
qed



theorem after_context_restart_witness:
  "\<exists>us vs. emitted (processFile defaultParser sampleFilter 1 2 None sampleEnv jsonStringify sampleLog) =
      us @ [(Match, finalized 2 (records defaultParser sampleLog ! 1))] @
      map (Pair ContextAfter) (numbered 2 [records defaultParser sampleLog ! 2]) @
      [(Match, finalized 4 (records defaultParser sampleLog ! 3))] @ vs \<and>
      distinct (map (\<lambda>c. index (snd c))
        (emitted (processFile defaultParser sampleFilter 1 2 None sampleEnv jsonStringify sampleLog)))"
proof -
  let ?rs = "records defaultParser sampleLog"
  have len: "length ?rs = 6"
    by code_simp
  have recs: "?rs = take 1 ?rs @ [?rs ! 1] @ [?rs ! 2] @ [?rs ! 3] @ drop 4 ?rs"
  proof -
    from len obtain a b c d e f where "?rs = [a, b, c, d, e, f]"
      by (auto simp: numeral_eq_Suc length_Suc_conv)
    then show ?thesis by simp
  qed
  have m1: "createFilter sampleFilter (?rs ! 1) getText = Inr True"
    by code_simp
  have m2: "createFilter sampleFilter (?rs ! 3) getText = Inr True"
    by code_simp
  have "createFilter sampleFilter (?rs ! 2) getText = Inr False"
    by code_simp
  then have mid: "\<forall>r \<in> set [?rs ! 2]. createFilter sampleFilter r getText = Inr False"
    by simp
  have near: "length [?rs ! 2] < (2::nat)"
    by simp
  have l1: "length (take 1 ?rs) + 1 = 2" "length (take 1 ?rs) + length [?rs ! 2] + 2 = 4"
    using len by simp_all
  from after_context_restart [OF recs m1 m2 mid near, of 1 jsonStringify None sampleEnv]
  show ?thesis
    unfolding l1 by (rule conjunct2)
qed


theorem empty_index_lines_skipped_witness:
  "jsonParse [] = None \<and>
   indexLine jsonParse sampleFilter 1 2 ''app.idx''
      \<lparr> iwin = initialWindow, meta = None, ilineNumber = 0 \<rparr> [] =
     Inr \<lparr> iwin = initialWindow, meta = None, ilineNumber = 1 \<rparr> \<and>
   emitted (processIndex jsonParse sampleFilter 1 2 ''app.idx''
              [jsonStringify (metaObject sampleEnv), [], ''{}'', [], []]) =
     emitted (processIndex jsonParse sampleFilter 1 2 ''app.idx''
              (filter (\<lambda>l. l \<noteq> []) [jsonStringify (metaObject sampleEnv), [], ''{}'', [], []]))"
proof -
  have p: "jsonParse [] = None"
    by code_simp
  from p empty_index_lines_skipped [of jsonParse sampleFilter 1 2 "''app.idx''"
      "\<lparr> iwin = initialWindow, meta = None, ilineNumber = 0 \<rparr>"
      "[jsonStringify (metaObject sampleEnv), [], ''{}'', [], []]"]
  show ?thesis by simp
qed


theorem index_parity_witness:
  "map view (emitted (processIndex jsonParse sampleFilter 1 2 ''app.idx''
      (writtenIndex (processFile defaultParser sampleFilter 1 2 (Some ''app.idx'') sampleEnv
                       jsonStringify (take 5 sampleLog))))) =
   map view (emitted (processFile defaultParser sampleFilter 1 2 None sampleEnv
                       jsonStringify (take 5 sampleLog)))"
proof -
  have wi: "writesIndex (Some ''app.idx'')"
    by (simp add: writesIndex_def)
  have m: "jsonStringify (metaObject sampleEnv) \<noteq> [] \<and>
           jsonParse (jsonStringify (metaObject sampleEnv)) = Some (metaObject sampleEnv)"
    by code_simp
  have "list_all (\<lambda>r. jsonStringify (serializeRecordForIndex r) \<noteq> [] \<and>
                      jsonParse (jsonStringify (serializeRecordForIndex r)) =
                        Some (serializeRecordForIndex r))
          (finalizedRecords defaultParser (take 5 sampleLog))"
    by code_simp
  then have r: "\<forall>r \<in> set (finalizedRecords defaultParser (take 5 sampleLog)).
                  jsonStringify (serializeRecordForIndex r) \<noteq> [] \<and>
                  jsonParse (jsonStringify (serializeRecordForIndex r)) =
                    Some (serializeRecordForIndex r)"
    by (simp add: list_all_iff)
  from index_parity [OF wi m r, of sampleFilter 1 2 "''app.idx''" None]
  show ?thesis by (rule conjunct1)
qed

end
